theory Spec2Isabelle
  imports Main "HOL-Library.Finite_Map" "HOL-Library.AList"
begin

section \<open>Data model\<close>

text \<open>
  The kernel-creation front end of loopy (\<^verbatim>\<open>loopy/kernel/creation.py\<close>) and the
  callables of \<^verbatim>\<open>loopy/library/function.py\<close>, embedded as HOL functions.
  Python exceptions are values of type \<open>error\<close>; a function that may raise returns
  \<open>error + 'a\<close> with \<open>Inl\<close> for the exception.
\<close>

datatype arg_id = Pos int | Kw string

datatype error =
    NameConflict string
      \<comment> \<open>ValueError of \<^verbatim>\<open>UniqueNameGenerator.add_name\<close>\<close>
  | MultiValuedNotAllowed string
      \<comment> \<open>ValueError: multi-valued macro expansion not allowed in this context\<close>
  | TemplateError string
      \<comment> \<open>\<^verbatim>\<open>re.error\<close> raised for a replacement string\<close>
  | UnpackError nat
      \<comment> \<open>ValueError of the unpacking \<^verbatim>\<open>dom, = ...\<close> with that many values\<close>
  | DomainParseError string
      \<comment> \<open>whatever \<^verbatim>\<open>isl.BasicSet.read_from_str\<close> raises, re-raised\<close>
  | NoInameAtIndex nat
      \<comment> \<open>RuntimeError: domain provided no iname at index (redefined iname?)\<close>
  | RedefinesIname string
      \<comment> \<open>RuntimeError: domain redefines iname that is part of a previous domain\<close>
  | ReductionInameParallel string
      \<comment> \<open>RuntimeError: inconsistency detected: reduction iname has a parallel tag\<close>
  | NameAlreadyUsed string string string
      \<comment> \<open>RuntimeError: invalid (source) name (name)--name already used as (source)\<close>
  | NonexistentInameDeps "string option"
      \<comment> \<open>ValueError: cannot force dependency on inames--they don't exist\<close>
  | LoopBoundWrites string nat
      \<comment> \<open>RuntimeError: there must be exactly one write to data-dependent domain parameter\<close>
  | KeyError string
  | KeyErrorId arg_id
  | InvalidLvalue
      \<comment> \<open>RuntimeError: invalid lvalue\<close>
  | NotDeclaredForWriting string
      \<comment> \<open>RuntimeError: variable not declared or not allowed for writing\<close>
  | OnlyPlainInames string
      \<comment> \<open>RuntimeError: only plain inames are allowed in the lvalue index\<close>
  | TempAlreadyExists string
      \<comment> \<open>RuntimeError: cannot create temporary variable--already exists\<close>
  | TempAlreadyExistsAsArg string
      \<comment> \<open>RuntimeError: cannot create temporary variable--already exists as argument\<close>
  | ReductionInameDuplication
      \<comment> \<open>RuntimeError: Reduction iname duplication with '@' is no longer supported\<close>

type_synonym dtype = string

section \<open>Expressions, instructions and kernels\<close>

text \<open>
  Modelled from the spec: the expression classes (pymbolic's primitives and
  \<^verbatim>\<open>loopy.symbolic\<close>) are not under src. Section 9 of the spec names the node kinds:
  variable, indexed reference, call, arithmetic, reduction (an operation over a tuple of
  inames and a body) and tagged common subexpression (a child and a prefix, with a dtype
  for \<^verbatim>\<open>TypedCSE\<close>).
\<close>

datatype expr =
    Variable string
  | Constant int
  | Subscript expr "expr list"
  | Call expr "expr list"
  | Sum "expr list"
  | Product "expr list"
  | Reduction string "string list" expr
  | CommonSubexpression expr "string option"
  | TypedCSE expr "string option" dtype

text \<open>
  The declared type of an assignee: a numpy dtype, or the marker \<^verbatim>\<open>loopy.infer_type\<close>.
  The attribute \<^verbatim>\<open>temp_var_type\<close> of an instruction is \<^verbatim>\<open>None\<close> when nothing is declared.
\<close>

datatype temp_var_type = DType dtype | infer_type

record instruction =
  insn_id :: "string option"
  insn_deps :: "string set"
  forced_iname_deps :: "string set"
  assignee :: expr
  expression :: expr
  temp_var_type :: "temp_var_type option"
  priority :: int

record substitution_rule =
  subst_name :: string
  subst_arguments :: "string list"
  subst_expression :: expr

record temporary_variable =
  tv_name :: string
  tv_dtype :: temp_var_type
  tv_is_local :: "bool option"
  tv_base_indices :: "expr list"
  tv_shape :: "expr list"

datatype kernel_arg = ValueArg string | GlobalArg string

fun arg_name :: "kernel_arg \<Rightarrow> string" where
  "arg_name (ValueArg n) = n"
| "arg_name (GlobalArg n) = n"

datatype iname_tag = ParallelTag string | ForceSequentialTag | SequentialTag string

fun is_ParallelTag :: "iname_tag \<Rightarrow> bool" where
  "is_ParallelTag (ParallelTag _) = True"
| "is_ParallelTag _ = False"

text \<open>
  A polyhedral set as this module reads it: the names of its set dimensions (\<^verbatim>\<open>None\<close> for
  a dimension without a name), the names of its parameters, and its constraints, opaque.
\<close>

record basic_set =
  set_dim_names :: "string option list"
  param_dim_names :: "string list"
  constraints :: string

text \<open>
  The kernel. Dictionaries that the passes iterate over are association lists (a new key
  goes to the end); \<^verbatim>\<open>iname_to_tag\<close> is only read by key.
\<close>

record loop_kernel =
  domains :: "basic_set list"
  instructions :: "instruction list"
  args :: "kernel_arg list"
  iname_to_tag :: "string \<rightharpoonup> iname_tag"
  temporary_variables :: "(string \<times> temporary_variable) list"
  substitutions :: "(string \<times> substitution_rule) list"

definition all_inames :: "loop_kernel \<Rightarrow> string set" where
  \<comment> \<open>Modelled from the spec: \<^verbatim>\<open>LoopKernel.all_inames\<close> is not under src; the inames are the
     named set dimensions of the kernel's domains.\<close>
  "all_inames knl = {n. Some n \<in> set (concat (map set_dim_names (domains knl)))}"

definition arg_dict :: "loop_kernel \<Rightarrow> string \<rightharpoonup> kernel_arg" where
  \<comment> \<open>Modelled from the spec: \<^verbatim>\<open>LoopKernel.arg_dict\<close> is not under src; the arguments by name.\<close>
  "arg_dict knl = map_of (map (\<lambda>a. (arg_name a, a)) (args knl))"

definition get_assignee_var_name :: "instruction \<Rightarrow> error + string" where
  \<comment> \<open>Modelled from the spec: \<^verbatim>\<open>Instruction.get_assignee_var_name\<close> is not under src; the
     assignee is a variable or an indexed variable reference.\<close>
  "get_assignee_var_name insn =
     (case assignee insn of
        Variable n \<Rightarrow> Inr n
      | Subscript (Variable n) idx \<Rightarrow> Inr n
      | _ \<Rightarrow> Inl InvalidLvalue)"

definition get_assignee_indices :: "instruction \<Rightarrow> error + expr list" where
  \<comment> \<open>Modelled from the spec: \<^verbatim>\<open>Instruction.get_assignee_indices\<close> is not under src; the
     index expressions of the left-hand side, none for a plain variable.\<close>
  "get_assignee_indices insn =
     (case assignee insn of
        Variable n \<Rightarrow> Inr []
      | Subscript a idx \<Rightarrow> Inr idx
      | _ \<Rightarrow> Inl InvalidLvalue)"

text \<open>
  Modelled from the spec: \<^verbatim>\<open>loopy.symbolic.ReductionCallbackMapper\<close> is not under src. It
  walks an expression tree and hands every reduction node to its callback;
  \<open>reduction_nodes\<close> lists these nodes (inames and body) in the order of the walk.
\<close>

fun reduction_nodes :: "expr \<Rightarrow> (string list \<times> expr) list" where
  "reduction_nodes (Variable v) = []"
| "reduction_nodes (Constant c) = []"
| "reduction_nodes (Subscript a idx) = reduction_nodes a @ concat (map reduction_nodes idx)"
| "reduction_nodes (Call f ps) = reduction_nodes f @ concat (map reduction_nodes ps)"
| "reduction_nodes (Sum es) = concat (map reduction_nodes es)"
| "reduction_nodes (Product es) = concat (map reduction_nodes es)"
| "reduction_nodes (Reduction oper inames e) = (inames, e) # reduction_nodes e"
| "reduction_nodes (CommonSubexpression e p) = reduction_nodes e"
| "reduction_nodes (TypedCSE e p d) = reduction_nodes e"

section \<open>Unique name generation\<close>

definition digit_char :: "nat \<Rightarrow> char" where
  "digit_char d = ''0123456789'' ! d"

fun string_of_nat :: "nat \<Rightarrow> string" where
  "string_of_nat n =
     (if n < 10 then [digit_char n]
      else string_of_nat (n div 10) @ [digit_char (n mod 10)])"

declare string_of_nat.simps [simp del]

text \<open>
  \<^verbatim>\<open>generate_unique_possibilities(prefix)\<close> yields \<^verbatim>\<open>prefix\<close>, then \<^verbatim>\<open>prefix_0\<close>,
  \<^verbatim>\<open>prefix_1\<close>, ... without end; the model gives the element at position \<open>i\<close>.
\<close>

definition generate_unique_possibilities :: "string \<Rightarrow> nat \<Rightarrow> string" where
  "generate_unique_possibilities prefix i =
     (if i = 0 then prefix else prefix @ ''_'' @ string_of_nat (i - 1))"

definition digit_val :: "char \<Rightarrow> nat" where
  "digit_val c = length (takeWhile (\<lambda>x. x \<noteq> c) ''0123456789'')"

lemma digit_val_char: "d < 10 \<Longrightarrow> digit_val (digit_char d) = d"
proof -
  assume "d < 10"
  then have "d \<in> {0,1,2,3,4,5,6,7,8,9}" by auto
  then show ?thesis
    by (auto simp: digit_val_def digit_char_def)
qed

lemma string_of_nat_inverse:
  "foldl (\<lambda>a c. 10 * a + digit_val c) 0 (string_of_nat n) = n"
proof (induction n rule: string_of_nat.induct)
  case (1 n)
  show ?case
  proof (cases "n < 10")
    case True
    then show ?thesis by (subst string_of_nat.simps) (simp add: digit_val_char)
  next
    case False
    then show ?thesis using 1 by (subst string_of_nat.simps) (simp add: digit_val_char)
  qed
qed

lemma string_of_nat_inj: "inj string_of_nat"
  by (rule inj_on_inverseI[where g = "foldl (\<lambda>a c. 10 * a + digit_val c) 0"])
     (rule string_of_nat_inverse)

lemma generate_unique_possibilities_inj: "inj (generate_unique_possibilities prefix)"
proof (rule injI)
  fix i j
  assume eq: "generate_unique_possibilities prefix i = generate_unique_possibilities prefix j"
  have len: "\<And>k. 0 < k \<Longrightarrow> length (generate_unique_possibilities prefix k) > length prefix"
    by (simp add: generate_unique_possibilities_def)
  have zero: "length (generate_unique_possibilities prefix 0) = length prefix"
    by (simp add: generate_unique_possibilities_def)
  show "i = j"
  proof (cases "i = 0 \<or> j = 0")
    case True
    then show ?thesis using eq len[of i] len[of j] zero
      by (metis less_irrefl not_gr_zero)
  next
    case False
    then have "string_of_nat (i - 1) = string_of_nat (j - 1)"
      using eq by (simp add: generate_unique_possibilities_def)
    then have "i - 1 = j - 1" using string_of_nat_inj by (simp add: inj_def)
    then show ?thesis using False by arith
  qed
qed

lemma finite_conflicting_possibilities:
  "finite {k. i \<le> k \<and> generate_unique_possibilities prefix k \<in> set existing}"
proof -
  have "finite (generate_unique_possibilities prefix -` set existing)"
    by (rule finite_vimageI[OF finite_set generate_unique_possibilities_inj])
  then show ?thesis
    by (rule rev_finite_subset) auto
qed

text \<open>
  The loop of \<^verbatim>\<open>UniqueNameGenerator.__call__\<close>: the first possibility, from position
  \<open>i\<close> on, that is not among the existing names. The existing names are a finite set,
  held as a list.
\<close>

function first_unique_possibility :: "string list \<Rightarrow> string \<Rightarrow> nat \<Rightarrow> string" where
  "first_unique_possibility existing prefix i =
     (if generate_unique_possibilities prefix i \<in> set existing
      then first_unique_possibility existing prefix (Suc i)
      else generate_unique_possibilities prefix i)"
  by pat_completeness auto
termination
proof (relation "measure (\<lambda>(existing, prefix, i).
          card {k. i \<le> k \<and> generate_unique_possibilities prefix k \<in> set existing})")
  show "wf (measure (\<lambda>(existing, prefix, i).
          card {k. i \<le> k \<and> generate_unique_possibilities prefix k \<in> set existing}))"
    by simp
next
  fix existing :: "string list" and prefix :: string and i :: nat
  assume a: "generate_unique_possibilities prefix i \<in> set existing"
  have "i \<in> {k. i \<le> k \<and> generate_unique_possibilities prefix k \<in> set existing}"
    "i \<notin> {k. Suc i \<le> k \<and> generate_unique_possibilities prefix k \<in> set existing}"
    using a by auto
  moreover have "{k. Suc i \<le> k \<and> generate_unique_possibilities prefix k \<in> set existing}
        \<subseteq> {k. i \<le> k \<and> generate_unique_possibilities prefix k \<in> set existing}"
    by auto
  ultimately have "{k. Suc i \<le> k \<and> generate_unique_possibilities prefix k \<in> set existing}
        \<subset> {k. i \<le> k \<and> generate_unique_possibilities prefix k \<in> set existing}"
    by blast
  then have "card {k. Suc i \<le> k \<and> generate_unique_possibilities prefix k \<in> set existing}
        < card {k. i \<le> k \<and> generate_unique_possibilities prefix k \<in> set existing}"
    by (rule psubset_card_mono[OF finite_conflicting_possibilities])
  then show "((existing, prefix, Suc i), (existing, prefix, i))
       \<in> measure (\<lambda>(existing, prefix, i).
          card {k. i \<le> k \<and> generate_unique_possibilities prefix k \<in> set existing})"
    by simp
qed

declare first_unique_possibility.simps [simp del]

definition is_name_conflicting :: "string list \<Rightarrow> string \<Rightarrow> bool" where
  "is_name_conflicting existing_names n = (n \<in> set existing_names)"

definition add_name :: "string list \<Rightarrow> string \<Rightarrow> error + string list" where
  "add_name existing_names n =
     (if is_name_conflicting existing_names n then Inl (NameConflict n)
      else Inr (n # existing_names))"

fun add_names :: "string list \<Rightarrow> string list \<Rightarrow> error + string list" where
  "add_names existing_names [] = Inr existing_names"
| "add_names existing_names (n # ns) =
     (case add_name existing_names n of
        Inl e \<Rightarrow> Inl e
      | Inr existing' \<Rightarrow> add_names existing' ns)"

text \<open>\<^verbatim>\<open>UniqueNameGenerator.__call__\<close>: the name found and the generator with it added.\<close>

definition unique_name :: "string list \<Rightarrow> string \<Rightarrow> string \<times> string list" where
  "unique_name existing_names based_on =
     (let var_name = first_unique_possibility existing_names based_on 0
      in (var_name, var_name # existing_names))"

section \<open>Regular expressions of the module\<close>

text \<open>
  The module's regular expressions, as functions on strings. A word character is one of
  \<^verbatim>\<open>[a-zA-Z0-9_]\<close>; a word boundary \<^verbatim>\<open>\b\<close> lies between a word character and a
  character that is none (or an end of the string). Hence a match of \<^verbatim>\<open>WORD_RE\<close>
  (\<^verbatim>\<open>\b([a-zA-Z0-9_]+)\b\<close>) is a maximal run of word characters, and \<^verbatim>\<open>_IDENTIFIER_RE\<close>
  matches those runs that do not start with a digit. \<open>word_runs\<close> collects the runs from
  left to right, \<open>cur\<close> being the run that is open.
\<close>

definition is_word_char :: "char \<Rightarrow> bool" where
  "is_word_char c \<longleftrightarrow>
     c \<in> set ''abcdefghijklmnopqrstuvwxyzABCDEFGHIJKLMNOPQRSTUVWXYZ0123456789_''"

definition is_digit_char :: "char \<Rightarrow> bool" where
  "is_digit_char c \<longleftrightarrow> c \<in> set ''0123456789''"

fun word_runs :: "string \<Rightarrow> string \<Rightarrow> string list" where
  "word_runs cur [] = (if cur = [] then [] else [cur])"
| "word_runs cur (c # cs) =
     (if is_word_char c then word_runs (cur @ [c]) cs
      else (if cur = [] then [] else [cur]) @ word_runs [] cs)"

definition WORD_RE_finditer :: "string \<Rightarrow> string list" where
  "WORD_RE_finditer s = word_runs [] s"

text \<open>
  \<^verbatim>\<open>_gather_identifiers\<close> returns a set; the model lists its elements without repetition
  (the order in which Python iterates over a set is not fixed by the source).
\<close>

definition gather_identifiers :: "string \<Rightarrow> string list" where
  "gather_identifiers s =
     remdups (filter (\<lambda>w. \<not> is_digit_char (hd w)) (word_runs [] s))"

text \<open>
  \<^verbatim>\<open>BRACE_RE\<close> (\<^verbatim>\<open>\$\{([a-zA-Z0-9_]+)\}\<close>) at the start of a string: the name between the
  braces. \<open>brace_scan\<close> finds the matches from left to right without overlap; \<open>skip\<close>
  counts the characters of the last match that are still to pass.
\<close>

definition brace_match :: "string \<Rightarrow> string option" where
  "brace_match s =
     (case s of
        c1 # c2 # r \<Rightarrow>
          if c1 = CHR ''$'' \<and> c2 = CHR ''{''
             \<and> takeWhile is_word_char r \<noteq> []
             \<and> take 1 (dropWhile is_word_char r) = ''}''
          then Some (takeWhile is_word_char r) else None
      | _ \<Rightarrow> None)"

fun brace_scan :: "nat \<Rightarrow> string \<Rightarrow> string list" where
  "brace_scan skip [] = []"
| "brace_scan skip (c # cs) =
     (if 0 < skip then brace_scan (skip - 1) cs
      else (case brace_match (c # cs) of
              Some w \<Rightarrow> w # brace_scan (length w + 2) cs
            | None \<Rightarrow> brace_scan 0 cs))"

definition BRACE_RE_finditer :: "string \<Rightarrow> string list" where
  "BRACE_RE_finditer s = brace_scan 0 s"

text \<open>
  The two patterns that \<^verbatim>\<open>expand_defines\<close> builds for \<^verbatim>\<open>re.sub\<close>: \<^verbatim>\<open>\$\{word\}\<close> and
  \<^verbatim>\<open>\bword\b\<close>, for a word of word characters. The first matches the literal text
  \<^verbatim>\<open>${word}\<close>, the second a maximal run of word characters equal to the word.
  \<open>substitute\<close> replaces every match, from left to right, by a fixed text.
\<close>

datatype pattern = BracePat string | WordPat string

fun sub_literal :: "nat \<Rightarrow> string \<Rightarrow> string \<Rightarrow> string \<Rightarrow> string" where
  "sub_literal skip lit repl [] = []"
| "sub_literal skip lit repl (c # cs) =
     (if 0 < skip then sub_literal (skip - 1) lit repl cs
      else if take (length lit) (c # cs) = lit
           then repl @ sub_literal (length lit - 1) lit repl cs
           else c # sub_literal 0 lit repl cs)"

fun sub_word :: "string \<Rightarrow> string \<Rightarrow> string \<Rightarrow> string \<Rightarrow> string" where
  "sub_word word repl cur [] = (if cur = word then repl else cur)"
| "sub_word word repl cur (c # cs) =
     (if is_word_char c then sub_word word repl (cur @ [c]) cs
      else (if cur = word then repl else cur) @ c # sub_word word repl [] cs)"

fun substitute :: "pattern \<Rightarrow> string \<Rightarrow> string \<Rightarrow> string" where
  "substitute (BracePat word) repl s = sub_literal 0 (''${'' @ word @ ''}'') repl s"
| "substitute (WordPat word) repl s = sub_word word repl [] s"

fun occurs :: "string \<Rightarrow> string \<Rightarrow> bool" where
  "occurs lit [] = False"
| "occurs lit (c # cs) = (take (length lit) (c # cs) = lit \<or> occurs lit cs)"

fun has_match :: "pattern \<Rightarrow> string \<Rightarrow> bool" where
  "has_match (BracePat word) s = occurs (''${'' @ word @ ''}'') s"
| "has_match (WordPat word) s = (word \<in> set (word_runs [] s))"

text \<open>
  \<^verbatim>\<open>re.sub\<close> reads its replacement as a template: a replacement without a backslash stands
  for itself. How the \<^verbatim>\<open>re\<close> module treats one with a backslash (escapes, group
  references) is the parameter \<open>parse_template\<close>: it fails when the template is compiled,
  or fails when a match is expanded, or gives the text to insert.
\<close>

datatype template = CompileError error | ExpandError error | Literal string

definition compile_repl :: "(pattern \<Rightarrow> string \<Rightarrow> template) \<Rightarrow> pattern \<Rightarrow> string \<Rightarrow> template" where
  "compile_repl parse_template pat repl =
     (if CHR 0x5C \<in> set repl then parse_template pat repl else Literal repl)"

definition re_sub ::
  "(pattern \<Rightarrow> string \<Rightarrow> template) \<Rightarrow> pattern \<Rightarrow> string \<Rightarrow> string \<Rightarrow> error + string" where
  "re_sub parse_template pat repl s =
     (case compile_repl parse_template pat repl of
        CompileError e \<Rightarrow> Inl e
      | ExpandError e \<Rightarrow> if has_match pat s then Inl e else Inr s
      | Literal r \<Rightarrow> Inr (substitute pat r s))"

section \<open>Expanding defines\<close>

text \<open>
  A value of the table \<^verbatim>\<open>defines\<close> is a list of values or a single value; values are held
  as the text that \<^verbatim>\<open>str\<close> gives. \<open>add_replacements\<close> is the loop over the matches of one
  of the two regular expressions, \<open>replacements_of\<close> the two loops in their order, first
  \<^verbatim>\<open>BRACE_RE\<close>, then \<^verbatim>\<open>WORD_RE\<close>, both over the text as given. The generator
  \<^verbatim>\<open>expand_defines\<close> is modelled by the list of what it yields, or the first exception
  that consuming it raises.
\<close>

datatype define_value = Value string | ValueList "string list"

fun add_replacements ::
  "(string \<Rightarrow> pattern) \<Rightarrow> (string \<rightharpoonup> define_value) \<Rightarrow> bool \<Rightarrow> string list
     \<Rightarrow> (pattern \<times> string) list list \<Rightarrow> error + (pattern \<times> string) list list" where
  "add_replacements replace_pattern defines single_val [] replacements = Inr replacements"
| "add_replacements replace_pattern defines single_val (word # rest) replacements =
     (case defines word of
        None \<Rightarrow> add_replacements replace_pattern defines single_val rest replacements
      | Some (ValueList subvals) \<Rightarrow>
          if single_val then Inl (MultiValuedNotAllowed word)
          else add_replacements replace_pattern defines single_val rest
                 (concat (map (\<lambda>rep. map (\<lambda>subval. rep @ [(replace_pattern word, subval)]) subvals)
                              replacements))
      | Some (Value v) \<Rightarrow>
          add_replacements replace_pattern defines single_val rest
            (map (\<lambda>rep. rep @ [(replace_pattern word, v)]) replacements))"

definition replacements_of ::
  "string \<Rightarrow> (string \<rightharpoonup> define_value) \<Rightarrow> bool \<Rightarrow> error + (pattern \<times> string) list list" where
  "replacements_of insn defines single_val =
     (case add_replacements BracePat defines single_val (BRACE_RE_finditer insn) [[]] of
        Inl e \<Rightarrow> Inl e
      | Inr replacements \<Rightarrow>
          add_replacements WordPat defines single_val (WORD_RE_finditer insn) replacements)"

fun apply_replacements ::
  "(pattern \<Rightarrow> string \<Rightarrow> template) \<Rightarrow> (pattern \<times> string) list \<Rightarrow> string \<Rightarrow> error + string" where
  "apply_replacements parse_template [] rep_value = Inr rep_value"
| "apply_replacements parse_template ((pat, val) # rest) rep_value =
     (case re_sub parse_template pat val rep_value of
        Inl e \<Rightarrow> Inl e
      | Inr rep_value' \<Rightarrow> apply_replacements parse_template rest rep_value')"

fun yield_all ::
  "(pattern \<Rightarrow> string \<Rightarrow> template) \<Rightarrow> string \<Rightarrow> (pattern \<times> string) list list
     \<Rightarrow> error + string list" where
  "yield_all parse_template insn [] = Inr []"
| "yield_all parse_template insn (rep # rest) =
     (case apply_replacements parse_template rep insn of
        Inl e \<Rightarrow> Inl e
      | Inr rep_value \<Rightarrow>
          (case yield_all parse_template insn rest of
             Inl e \<Rightarrow> Inl e
           | Inr values \<Rightarrow> Inr (rep_value # values)))"

definition expand_defines ::
  "(pattern \<Rightarrow> string \<Rightarrow> template) \<Rightarrow> string \<Rightarrow> (string \<rightharpoonup> define_value) \<Rightarrow> bool
     \<Rightarrow> error + string list" where
  "expand_defines parse_template insn defines single_val =
     (case replacements_of insn defines single_val of
        Inl e \<Rightarrow> Inl e
      | Inr replacements \<Rightarrow> yield_all parse_template insn replacements)"

text \<open>
  What the two loops build, in closed form. For each match whose word is defined,
  \<open>choices\<close> has the replacements the word admits: its one value, or each value of its
  list. A tuple of replacements takes one choice for each such match, the matches of
  \<^verbatim>\<open>BRACE_RE\<close> first and those of \<^verbatim>\<open>WORD_RE\<close> after them, both in text order.
  \<open>first_list_valued\<close> is the first match, in that order, whose value is a list.
\<close>

definition list_valued :: "(string \<rightharpoonup> define_value) \<Rightarrow> string \<Rightarrow> bool" where
  "list_valued defines word =
     (case defines word of Some (ValueList subvals) \<Rightarrow> True | _ \<Rightarrow> False)"

definition choices ::
  "(string \<Rightarrow> pattern) \<Rightarrow> (string \<rightharpoonup> define_value) \<Rightarrow> string list
     \<Rightarrow> (pattern \<times> string) list list" where
  "choices replace_pattern defines words =
     concat (map (\<lambda>word. case defines word of
                            None \<Rightarrow> []
                          | Some (Value v) \<Rightarrow> [[(replace_pattern word, v)]]
                          | Some (ValueList subvals) \<Rightarrow>
                              [map (\<lambda>subval. (replace_pattern word, subval)) subvals])
                 words)"

definition all_replacements ::
  "string \<Rightarrow> (string \<rightharpoonup> define_value) \<Rightarrow> (pattern \<times> string) list list" where
  "all_replacements insn defines =
     map (\<lambda>(bs, ws). bs @ ws)
       (List.product (product_lists (choices BracePat defines (BRACE_RE_finditer insn)))
                     (product_lists (choices WordPat defines (WORD_RE_finditer insn))))"

definition first_list_valued :: "(string \<rightharpoonup> define_value) \<Rightarrow> string list \<Rightarrow> string option" where
  "first_list_valued defines words = List.find (list_valued defines) words"

section \<open>Domain parsing\<close>

text \<open>
  An element of the list of domains is a string or a set that is built already. The
  parameter \<open>read_from_str\<close> stands for \<^verbatim>\<open>isl.BasicSet.read_from_str\<close> in the context at
  hand. \<open>resolve_domain\<close> is the first half of the loop body (from the element to its
  set), \<open>iname_loop\<close> the loop over the set dimensions.

  The synthesized parameters are a Python set (\<^verbatim>\<open>ids & available_parameters\<close>), and
  \<^verbatim>\<open>",".join\<close> takes them in the order in which the interpreter iterates over that set,
  which the source does not fix. The parameter \<open>set_order\<close> is that order: it is given
  the elements of the set and returns them as they are iterated over.
\<close>

definition is_space :: "char \<Rightarrow> bool" where
  "is_space c \<longleftrightarrow> c \<in> set [CHR '' '', CHR 0x09, CHR 0x0A, CHR 0x0B, CHR 0x0C, CHR 0x0D]"

definition lstrip :: "string \<Rightarrow> string" where
  "lstrip s = dropWhile is_space s"

fun join :: "string \<Rightarrow> string list \<Rightarrow> string" where
  "join sep [] = []"
| "join sep [x] = x"
| "join sep (x # y # rest) = x @ sep @ join sep (y # rest)"

datatype domain_input = DomainStr string | DomainSet basic_set

definition synthesized_parameters ::
  "(string list \<Rightarrow> string list) \<Rightarrow> string set \<Rightarrow> string \<Rightarrow> string list" where
  "synthesized_parameters set_order available_parameters domn =
     set_order (filter (\<lambda>ident. ident \<in> available_parameters) (gather_identifiers domn))"

definition with_parameters ::
  "(string list \<Rightarrow> string list) \<Rightarrow> string set \<Rightarrow> string \<Rightarrow> string" where
  "with_parameters set_order available_parameters domn =
     (if take 1 (lstrip domn) \<noteq> ''[''
      then ''['' @ join '','' (synthesized_parameters set_order available_parameters domn)
             @ ''] -> '' @ domn
      else domn)"

definition resolve_domain ::
  "(string list \<Rightarrow> string list) \<Rightarrow> (pattern \<Rightarrow> string \<Rightarrow> template)
     \<Rightarrow> (string \<Rightarrow> error + basic_set)
     \<Rightarrow> (string \<rightharpoonup> define_value) \<Rightarrow> string set \<Rightarrow> domain_input \<Rightarrow> error + basic_set" where
  "resolve_domain set_order parse_template read_from_str defines available_parameters domn =
     (case domn of
        DomainSet s \<Rightarrow> Inr s
      | DomainStr text \<Rightarrow>
          (case expand_defines parse_template text defines True of
             Inl e \<Rightarrow> Inl e
           | Inr values \<Rightarrow>
               (case values of
                  [text'] \<Rightarrow> read_from_str (with_parameters set_order available_parameters text')
                | _ \<Rightarrow> Inl (UnpackError (length values)))))"

fun iname_loop ::
  "nat \<Rightarrow> string option list \<Rightarrow> string set \<times> string set \<Rightarrow> error + (string set \<times> string set)" where
  "iname_loop i_iname [] (used_inames, available_parameters) =
     Inr (used_inames, available_parameters)"
| "iname_loop i_iname (iname # rest) (used_inames, available_parameters) =
     (case iname of
        None \<Rightarrow> Inl (NoInameAtIndex i_iname)
      | Some n \<Rightarrow>
          if n \<in> used_inames then Inl (RedefinesIname n)
          else iname_loop (Suc i_iname) rest (insert n used_inames, insert n available_parameters))"

fun parse_domains_loop ::
  "(string list \<Rightarrow> string list) \<Rightarrow> (pattern \<Rightarrow> string \<Rightarrow> template)
     \<Rightarrow> (string \<Rightarrow> error + basic_set)
     \<Rightarrow> (string \<rightharpoonup> define_value) \<Rightarrow> domain_input list
     \<Rightarrow> basic_set list \<times> string set \<times> string set
     \<Rightarrow> error + (basic_set list \<times> string set \<times> string set)" where
  "parse_domains_loop set_order parse_template read_from_str defines [] state = Inr state"
| "parse_domains_loop set_order parse_template read_from_str defines (domn # rest)
       (result, available_parameters, used_inames) =
     (case resolve_domain set_order parse_template read_from_str defines
             available_parameters domn of
        Inl e \<Rightarrow> Inl e
      | Inr s \<Rightarrow>
          (case iname_loop 0 (set_dim_names s) (used_inames, available_parameters) of
             Inl e \<Rightarrow> Inl e
           | Inr (used_inames', available_parameters') \<Rightarrow>
               parse_domains_loop set_order parse_template read_from_str defines rest
                 (result @ [s], available_parameters', used_inames')))"

definition parse_domains ::
  "(string list \<Rightarrow> string list) \<Rightarrow> (pattern \<Rightarrow> string \<Rightarrow> template)
     \<Rightarrow> (string \<Rightarrow> error + basic_set) \<Rightarrow> string set
     \<Rightarrow> domain_input list \<Rightarrow> (string \<rightharpoonup> define_value) \<Rightarrow> error + basic_set list" where
  "parse_domains set_order parse_template read_from_str args_and_vars domains' defines =
     (case parse_domains_loop set_order parse_template read_from_str defines domains'
             ([], args_and_vars, {}) of
        Inl e \<Rightarrow> Inl e
      | Inr (result, available_parameters, used_inames) \<Rightarrow> Inr result)"

text \<open>The inames that a list of sets introduces: the names of their set dimensions.\<close>

definition inames_of :: "basic_set list \<Rightarrow> string set" where
  "inames_of ds = {n. Some n \<in> set (concat (map set_dim_names ds))}"

section \<open>Tagging reduction inames as sequential\<close>

text \<open>
  The scan of \<^verbatim>\<open>tag_reduction_inames_as_sequential\<close>: the callback \<^verbatim>\<open>map_reduction\<close>
  walks the body (which hands the reductions nested in it to the callback) and adds the
  node's inames to the set \<^verbatim>\<open>result\<close>; the scan runs over the expression of every
  instruction of the kernel. The set is held as a list without repetitions.
\<close>

definition map_reduction_result :: "expr \<Rightarrow> string list" where
  "map_reduction_result e = concat (map fst (reduction_nodes e))"

definition reduction_inames_of_instructions :: "loop_kernel \<Rightarrow> string list" where
  "reduction_inames_of_instructions knl =
     remdups (concat (map (\<lambda>insn. map_reduction_result (expression insn)) (instructions knl)))"

text \<open>The loop over \<^verbatim>\<open>result\<close> that fills \<^verbatim>\<open>new_iname_to_tag\<close> or raises.\<close>

fun new_iname_to_tag_loop ::
  "(string \<rightharpoonup> iname_tag) \<Rightarrow> string list \<Rightarrow> (string \<rightharpoonup> iname_tag)
     \<Rightarrow> error + (string \<rightharpoonup> iname_tag)" where
  "new_iname_to_tag_loop itt [] new = Inr new"
| "new_iname_to_tag_loop itt (iname # rest) new =
     (case itt iname of
        None \<Rightarrow> new_iname_to_tag_loop itt rest (new(iname \<mapsto> ForceSequentialTag))
      | Some tag \<Rightarrow>
          if is_ParallelTag tag then Inl (ReductionInameParallel iname)
          else new_iname_to_tag_loop itt rest new)"

definition tag_inames :: "loop_kernel \<Rightarrow> (string \<rightharpoonup> iname_tag) \<Rightarrow> loop_kernel" where
  \<comment> \<open>Modelled from the spec: \<^verbatim>\<open>loopy.tag_inames\<close> is not under src; it returns the kernel
     with the given tags applied to its iname-to-tag mapping, as one update.\<close>
  "tag_inames knl new = knl\<lparr>iname_to_tag := iname_to_tag knl ++ new\<rparr>"

definition tag_reduction_inames_as_sequential :: "loop_kernel \<Rightarrow> error + loop_kernel" where
  "tag_reduction_inames_as_sequential knl =
     (case new_iname_to_tag_loop (iname_to_tag knl) (reduction_inames_of_instructions knl)
             Map.empty of
        Inl e \<Rightarrow> Inl e
      | Inr new \<Rightarrow> Inr (tag_inames knl new))"

text \<open>
  The inames that the scan of the pass collects: those in the inames of a reduction node
  of the expression of some instruction. The reduction nodes of substitution rules are not
  among them, since the scan does not visit the rules.
\<close>

definition collected_reduction_iname :: "loop_kernel \<Rightarrow> string \<Rightarrow> bool" where
  "collected_reduction_iname knl i \<longleftrightarrow>
     (\<exists>insn\<in>set (instructions knl). \<exists>node\<in>set (reduction_nodes (expression insn)).
        i \<in> set (fst node))"

section \<open>Sanity checks\<close>

fun add_name_source ::
  "(string \<rightharpoonup> string) \<Rightarrow> string \<Rightarrow> string list \<Rightarrow> error + (string \<rightharpoonup> string)" where
  "add_name_source name_to_source source [] = Inr name_to_source"
| "add_name_source name_to_source source (n # ns) =
     (case name_to_source n of
        Some used \<Rightarrow> Inl (NameAlreadyUsed source n used)
      | None \<Rightarrow> add_name_source (name_to_source(n \<mapsto> source)) source ns)"

definition inames_in_order :: "loop_kernel \<Rightarrow> string list" where
  "inames_in_order knl =
     remdups (concat (map (\<lambda>d. concat (map (\<lambda>n. case n of None \<Rightarrow> [] | Some i \<Rightarrow> [i])
                                          (set_dim_names d))) (domains knl)))"

definition check_for_duplicate_names :: "loop_kernel \<Rightarrow> error + unit" where
  "check_for_duplicate_names knl =
     (case add_name_source Map.empty ''iname'' (inames_in_order knl) of
        Inl e \<Rightarrow> Inl e
      | Inr m1 \<Rightarrow>
     (case add_name_source m1 ''argument'' (map arg_name (args knl)) of
        Inl e \<Rightarrow> Inl e
      | Inr m2 \<Rightarrow>
     (case add_name_source m2 ''temporary'' (map fst (temporary_variables knl)) of
        Inl e \<Rightarrow> Inl e
      | Inr m3 \<Rightarrow>
     (case add_name_source m3 ''substitution'' (map fst (substitutions knl)) of
        Inl e \<Rightarrow> Inl e
      | Inr m4 \<Rightarrow> Inr ()))))"

fun nonexistent_iname_deps_loop :: "string set \<Rightarrow> instruction list \<Rightarrow> error + unit" where
  "nonexistent_iname_deps_loop inames [] = Inr ()"
| "nonexistent_iname_deps_loop inames (insn # rest) =
     (if \<not> forced_iname_deps insn \<subseteq> inames then Inl (NonexistentInameDeps (insn_id insn))
      else nonexistent_iname_deps_loop inames rest)"

definition check_for_nonexistent_iname_deps :: "loop_kernel \<Rightarrow> error + unit" where
  "check_for_nonexistent_iname_deps knl =
     nonexistent_iname_deps_loop (all_inames knl) (instructions knl)"

text \<open>
  Modelled from the spec: \<^verbatim>\<open>LoopKernel.writer_map\<close> is not under src. It maps a variable
  name to the set of the ids of the instructions that write it; a variable that no
  instruction writes has no entry.
\<close>

fun writer_map_loop ::
  "instruction list \<Rightarrow> (string \<rightharpoonup> string option set) \<Rightarrow> error + (string \<rightharpoonup> string option set)" where
  "writer_map_loop [] result = Inr result"
| "writer_map_loop (insn # rest) result =
     (case get_assignee_var_name insn of
        Inl e \<Rightarrow> Inl e
      | Inr var_name \<Rightarrow>
          writer_map_loop rest
            (result(var_name \<mapsto> insert (insn_id insn)
                                    (case result var_name of None \<Rightarrow> {} | Some ws \<Rightarrow> ws))))"

definition writer_map :: "loop_kernel \<Rightarrow> error + (string \<rightharpoonup> string option set)" where
  "writer_map knl = writer_map_loop (instructions knl) Map.empty"

definition domain_parameters :: "loop_kernel \<Rightarrow> string list" where
  "domain_parameters knl = remdups (concat (map param_dim_names (domains knl)))"

definition temp_var_domain_parameters :: "loop_kernel \<Rightarrow> string list" where
  "temp_var_domain_parameters knl =
     filter (\<lambda>p. p \<in> fst ` set (temporary_variables knl)) (domain_parameters knl)"

fun par_writers_loop :: "(string \<rightharpoonup> string option set) \<Rightarrow> string list \<Rightarrow> error + unit" where
  "par_writers_loop wmap [] = Inr ()"
| "par_writers_loop wmap (tvpar # rest) =
     (case wmap tvpar of
        None \<Rightarrow> Inl (KeyError tvpar)
      | Some par_writers \<Rightarrow>
          if card par_writers \<noteq> 1 then Inl (LoopBoundWrites tvpar (card par_writers))
          else par_writers_loop wmap rest)"

definition check_for_multiple_writes_to_loop_bounds :: "loop_kernel \<Rightarrow> error + unit" where
  "check_for_multiple_writes_to_loop_bounds knl =
     (case writer_map knl of
        Inl e \<Rightarrow> Inl e
      | Inr wmap \<Rightarrow> par_writers_loop wmap (temp_var_domain_parameters knl))"

fun written_variable_names_loop :: "string set \<Rightarrow> instruction list \<Rightarrow> error + unit" where
  "written_variable_names_loop admissible_vars [] = Inr ()"
| "written_variable_names_loop admissible_vars (insn # rest) =
     (case get_assignee_var_name insn of
        Inl e \<Rightarrow> Inl e
      | Inr var_name \<Rightarrow>
          if var_name \<notin> admissible_vars then Inl (NotDeclaredForWriting var_name)
          else written_variable_names_loop admissible_vars rest)"

definition check_written_variable_names :: "loop_kernel \<Rightarrow> error + unit" where
  "check_written_variable_names knl =
     written_variable_names_loop
       (set (map arg_name (args knl)) \<union> fst ` set (temporary_variables knl))
       (instructions knl)"

text \<open>
  The instructions that write a variable, and the temporaries that are parameters of a
  domain (the data-dependent bounds), as the check reads them.
\<close>

definition writers :: "loop_kernel \<Rightarrow> string \<Rightarrow> instruction list" where
  "writers knl var_name =
     filter (\<lambda>insn. get_assignee_var_name insn = Inr var_name) (instructions knl)"

definition data_dependent_bound :: "loop_kernel \<Rightarrow> string \<Rightarrow> bool" where
  "data_dependent_bound knl tv \<longleftrightarrow>
     tv \<in> fst ` set (temporary_variables knl)
     \<and> (\<exists>dom\<in>set (domains knl). tv \<in> set (param_dim_names dom))"

section \<open>Expanding common subexpressions into assignments\<close>

definition all_variable_names :: "loop_kernel \<Rightarrow> string list" where
  \<comment> \<open>Modelled from the spec: \<^verbatim>\<open>LoopKernel.get_var_name_generator\<close> is not under src; the
     registry starts from the names of the four namespaces of the kernel (inames,
     arguments, temporaries, substitution rules).\<close>
  "all_variable_names knl =
     inames_in_order knl @ map arg_name (args knl) @ map fst (temporary_variables knl)
       @ map fst (substitutions knl)"

definition make_unique_instruction_id :: "loop_kernel \<Rightarrow> string list \<Rightarrow> string" where
  \<comment> \<open>Modelled from the spec: \<^verbatim>\<open>LoopKernel.make_unique_instruction_id\<close> is not under src;
     a fresh identifier, distinct from the ids of the kernel's instructions and from the
     ids in \<^verbatim>\<open>extra_used_ids\<close>.\<close>
  "make_unique_instruction_id knl extra_used_ids =
     first_unique_possibility
       (concat (map (\<lambda>insn. case insn_id insn of None \<Rightarrow> [] | Some i \<Rightarrow> [i]) (instructions knl))
          @ extra_used_ids)
       ''insn'' 0"

text \<open>
  The state that \<^verbatim>\<open>expand_cses\<close> and its mapper share: the mapper's memo
  \<^verbatim>\<open>expr_to_var\<close>, and the closure variables of \<^verbatim>\<open>add_assignment\<close>.
\<close>

record cse_state =
  expr_to_var :: "expr \<rightharpoonup> expr"
  new_insns :: "instruction list"
  var_name_gen :: "string list"
  newly_created_insn_ids :: "string list"
  new_temp_vars :: "(string \<times> temporary_variable) list"

definition add_assignment ::
  "loop_kernel \<Rightarrow> string option \<Rightarrow> expr \<Rightarrow> dtype option \<Rightarrow> cse_state \<Rightarrow> string \<times> cse_state" where
  "add_assignment knl base_name e dtype st =
     (let base_name' = (case base_name of None \<Rightarrow> ''var'' | Some b \<Rightarrow> b);
          (new_var_name, gen') = unique_name (var_name_gen st) base_name';
          dtype' = (case dtype of None \<Rightarrow> infer_type | Some d \<Rightarrow> DType d);
          tv = \<lparr>tv_name = new_var_name, tv_dtype = dtype', tv_is_local = None,
                tv_base_indices = [], tv_shape = []\<rparr>;
          insn = \<lparr>insn_id = Some (make_unique_instruction_id knl (newly_created_insn_ids st)),
                  insn_deps = {}, forced_iname_deps = {},
                  assignee = Variable new_var_name, expression = e,
                  temp_var_type = None, priority = 0\<rparr>
      in (new_var_name,
          st\<lparr>var_name_gen := gen',
             new_temp_vars := AList.update new_var_name tv (new_temp_vars st),
             newly_created_insn_ids := the (insn_id insn) # newly_created_insn_ids st,
             new_insns := new_insns st @ [insn]\<rparr>))"

fun is_Variable :: "expr \<Rightarrow> bool" where
  "is_Variable (Variable _) = True"
| "is_Variable _ = False"

text \<open>
  \<^verbatim>\<open>map_common_subexpression\<close> after the memo missed and the child has been mapped:
  \<open>r\<close> is the mapped child with the state after mapping it.
\<close>

definition hoist ::
  "loop_kernel \<Rightarrow> expr \<Rightarrow> string option \<Rightarrow> dtype option \<Rightarrow> expr \<times> cse_state \<Rightarrow> expr \<times> cse_state" where
  "hoist knl child prefix dtype r =
     (case r of (child', st1) \<Rightarrow>
        if is_Variable child' then (child', st1)
        else (case add_assignment knl prefix child' dtype st1 of (var_name, st2) \<Rightarrow>
                (Variable var_name,
                 st2\<lparr>expr_to_var := (expr_to_var st2)(child \<mapsto> Variable var_name)\<rparr>)))"

text \<open>
  \<^verbatim>\<open>CSEToAssignmentMapper\<close>: an identity mapper (children mapped left to right, the node
  rebuilt) but for common subexpressions. The memo is keyed by the child, compared
  structurally.
\<close>

fun cseam_rec :: "loop_kernel \<Rightarrow> expr \<Rightarrow> cse_state \<Rightarrow> expr \<times> cse_state"
  and cseam_rec_list :: "loop_kernel \<Rightarrow> expr list \<Rightarrow> cse_state \<Rightarrow> expr list \<times> cse_state" where
  "cseam_rec knl (Variable v) st = (Variable v, st)"
| "cseam_rec knl (Constant c) st = (Constant c, st)"
| "cseam_rec knl (Subscript a idx) st =
     (case cseam_rec knl a st of (a', st1) \<Rightarrow>
        (case cseam_rec_list knl idx st1 of (idx', st2) \<Rightarrow> (Subscript a' idx', st2)))"
| "cseam_rec knl (Call f ps) st =
     (case cseam_rec knl f st of (f', st1) \<Rightarrow>
        (case cseam_rec_list knl ps st1 of (ps', st2) \<Rightarrow> (Call f' ps', st2)))"
| "cseam_rec knl (Sum es) st =
     (case cseam_rec_list knl es st of (es', st1) \<Rightarrow> (Sum es', st1))"
| "cseam_rec knl (Product es) st =
     (case cseam_rec_list knl es st of (es', st1) \<Rightarrow> (Product es', st1))"
| "cseam_rec knl (Reduction oper inames e) st =
     (case cseam_rec knl e st of (e', st1) \<Rightarrow> (Reduction oper inames e', st1))"
| "cseam_rec knl (CommonSubexpression child prefix) st =
     (case expr_to_var st child of
        Some var \<Rightarrow> (var, st)
      | None \<Rightarrow> hoist knl child prefix None (cseam_rec knl child st))"
| "cseam_rec knl (TypedCSE child prefix dtype) st =
     (case expr_to_var st child of
        Some var \<Rightarrow> (var, st)
      | None \<Rightarrow> hoist knl child prefix (Some dtype) (cseam_rec knl child st))"
| "cseam_rec_list knl [] st = ([], st)"
| "cseam_rec_list knl (e # es) st =
     (case cseam_rec knl e st of (e', st1) \<Rightarrow>
        (case cseam_rec_list knl es st1 of (es', st2) \<Rightarrow> (e' # es', st2)))"

fun expand_cses_loop :: "loop_kernel \<Rightarrow> instruction list \<Rightarrow> cse_state \<Rightarrow> cse_state" where
  "expand_cses_loop knl [] st = st"
| "expand_cses_loop knl (insn # rest) st =
     (case cseam_rec knl (expression insn) st of (e', st1) \<Rightarrow>
        expand_cses_loop knl rest (st1\<lparr>new_insns := new_insns st1 @ [insn\<lparr>expression := e'\<rparr>]\<rparr>))"

definition expand_cses_state :: "loop_kernel \<Rightarrow> cse_state" where
  "expand_cses_state knl =
     expand_cses_loop knl (instructions knl)
       \<lparr>expr_to_var = Map.empty, new_insns = [], var_name_gen = all_variable_names knl,
        newly_created_insn_ids = [], new_temp_vars = temporary_variables knl\<rparr>"

definition expand_cses :: "loop_kernel \<Rightarrow> loop_kernel" where
  "expand_cses knl =
     knl\<lparr>instructions := new_insns (expand_cses_state knl),
         temporary_variables := new_temp_vars (expand_cses_state knl)\<rparr>"

text \<open>
  Notions for stating what the pass does: the children of the tagged nodes of an
  expression (nested ones included), the expression with every tagged node replaced by a
  given reference, and the prefix and dtype of the first tagged node that the mapper
  meets.
\<close>

fun cse_children :: "expr \<Rightarrow> expr list" where
  "cse_children (Variable v) = []"
| "cse_children (Constant c) = []"
| "cse_children (Subscript a idx) = cse_children a @ concat (map cse_children idx)"
| "cse_children (Call f ps) = cse_children f @ concat (map cse_children ps)"
| "cse_children (Sum es) = concat (map cse_children es)"
| "cse_children (Product es) = concat (map cse_children es)"
| "cse_children (Reduction oper inames e) = cse_children e"
| "cse_children (CommonSubexpression child prefix) = child # cse_children child"
| "cse_children (TypedCSE child prefix dtype) = child # cse_children child"

fun replace_cse :: "expr \<Rightarrow> expr \<Rightarrow> expr" where
  "replace_cse var (Variable v) = Variable v"
| "replace_cse var (Constant c) = Constant c"
| "replace_cse var (Subscript a idx) = Subscript (replace_cse var a) (map (replace_cse var) idx)"
| "replace_cse var (Call f ps) = Call (replace_cse var f) (map (replace_cse var) ps)"
| "replace_cse var (Sum es) = Sum (map (replace_cse var) es)"
| "replace_cse var (Product es) = Product (map (replace_cse var) es)"
| "replace_cse var (Reduction oper inames e) = Reduction oper inames (replace_cse var e)"
| "replace_cse var (CommonSubexpression child prefix) = var"
| "replace_cse var (TypedCSE child prefix dtype) = var"

fun first_cse :: "expr \<Rightarrow> (string option \<times> dtype option) option"
  and first_cse_list :: "expr list \<Rightarrow> (string option \<times> dtype option) option" where
  "first_cse (Variable v) = None"
| "first_cse (Constant c) = None"
| "first_cse (Subscript a idx) =
     (case first_cse a of Some pd \<Rightarrow> Some pd | None \<Rightarrow> first_cse_list idx)"
| "first_cse (Call f ps) =
     (case first_cse f of Some pd \<Rightarrow> Some pd | None \<Rightarrow> first_cse_list ps)"
| "first_cse (Sum es) = first_cse_list es"
| "first_cse (Product es) = first_cse_list es"
| "first_cse (Reduction oper inames e) = first_cse e"
| "first_cse (CommonSubexpression child prefix) = Some (prefix, None)"
| "first_cse (TypedCSE child prefix dtype) = Some (prefix, Some dtype)"
| "first_cse_list [] = None"
| "first_cse_list (e # es) =
     (case first_cse e of Some pd \<Rightarrow> Some pd | None \<Rightarrow> first_cse_list es)"




section \<open>Creating temporary variables\<close>

text \<open>
  The loop over \<^verbatim>\<open>insn.get_assignee_indices()\<close>: every index of the left-hand side has to
  be a variable (\<open>variable_name\<close> is \<open>None\<close> for any other node) that names an iname
  of the kernel.
\<close>

fun variable_name :: "expr \<Rightarrow> string option" where
  "variable_name (Variable v) = Some v"
| "variable_name _ = None"

fun assignee_indices_loop :: "string set \<Rightarrow> string \<Rightarrow> expr list \<Rightarrow> error + string list" where
  "assignee_indices_loop inames assignee_name [] = Inr []"
| "assignee_indices_loop inames assignee_name (index_expr # rest) =
     (case variable_name index_expr of
        None \<Rightarrow> Inl (OnlyPlainInames assignee_name)
      | Some v \<Rightarrow>
          if v \<notin> inames then Inl (OnlyPlainInames assignee_name)
          else (case assignee_indices_loop inames assignee_name rest of
                  Inl e \<Rightarrow> Inl e
                | Inr assignee_indices \<Rightarrow> Inr (v # assignee_indices)))"

text \<open>
  The body of the loop of \<^verbatim>\<open>create_temporaries\<close> for one instruction. The parameter
  \<open>find_shape\<close> stands for \<^verbatim>\<open>knl.find_var_base_indices_and_shape_from_inames\<close>, which is
  not under src: from the index inames it gives the base indices and the shape, or raises.
\<close>

definition create_temporary ::
  "(loop_kernel \<Rightarrow> string list \<Rightarrow> error + (expr list \<times> expr list)) \<Rightarrow> loop_kernel
     \<Rightarrow> instruction \<Rightarrow> (string \<times> temporary_variable) list
     \<Rightarrow> error + (instruction \<times> (string \<times> temporary_variable) list)" where
  "create_temporary find_shape knl insn new_temp_vars' =
     (case temp_var_type insn of
        None \<Rightarrow> Inr (insn, new_temp_vars')
      | Some declared \<Rightarrow>
     (case get_assignee_var_name insn of
        Inl e \<Rightarrow> Inl e
      | Inr assignee_name \<Rightarrow>
     (case get_assignee_indices insn of
        Inl e \<Rightarrow> Inl e
      | Inr index_exprs \<Rightarrow>
     (case assignee_indices_loop (all_inames knl) assignee_name index_exprs of
        Inl e \<Rightarrow> Inl e
      | Inr assignee_indices \<Rightarrow>
     (case find_shape knl assignee_indices of
        Inl e \<Rightarrow> Inl e
      | Inr (base_indices, shape) \<Rightarrow>
          if assignee_name \<in> fst ` set new_temp_vars' then Inl (TempAlreadyExists assignee_name)
          else if assignee_name \<in> dom (arg_dict knl) then Inl (TempAlreadyExistsAsArg assignee_name)
          else Inr (insn\<lparr>temp_var_type := None\<rparr>,
                    AList.update assignee_name
                      \<lparr>tv_name = assignee_name, tv_dtype = declared, tv_is_local = None,
                       tv_base_indices = base_indices, tv_shape = shape\<rparr>
                      new_temp_vars'))))))"

fun create_temporaries_loop ::
  "(loop_kernel \<Rightarrow> string list \<Rightarrow> error + (expr list \<times> expr list)) \<Rightarrow> loop_kernel
     \<Rightarrow> instruction list \<Rightarrow> instruction list \<times> (string \<times> temporary_variable) list
     \<Rightarrow> error + (instruction list \<times> (string \<times> temporary_variable) list)" where
  "create_temporaries_loop find_shape knl [] acc = Inr acc"
| "create_temporaries_loop find_shape knl (insn # rest) acc =
     (case create_temporary find_shape knl insn (snd acc) of
        Inl e \<Rightarrow> Inl e
      | Inr (insn', temps') \<Rightarrow>
          create_temporaries_loop find_shape knl rest (fst acc @ [insn'], temps'))"

definition create_temporaries ::
  "(loop_kernel \<Rightarrow> string list \<Rightarrow> error + (expr list \<times> expr list)) \<Rightarrow> loop_kernel
     \<Rightarrow> error + loop_kernel" where
  "create_temporaries find_shape knl =
     (case create_temporaries_loop find_shape knl (instructions knl)
             ([], temporary_variables knl) of
        Inl e \<Rightarrow> Inl e
      | Inr (new_insns', new_temp_vars') \<Rightarrow>
          Inr (knl\<lparr>instructions := new_insns', temporary_variables := new_temp_vars'\<rparr>))"

text \<open>
  Notions for stating what the pass does: an index that is a plain iname of the kernel,
  the instruction with its declared type cleared, the names that the instructions declare,
  and an instruction whose declaration passes every check of the loop body against the
  temporaries of the kernel.
\<close>

definition plain_iname :: "loop_kernel \<Rightarrow> expr \<Rightarrow> bool" where
  "plain_iname knl index_expr \<longleftrightarrow>
     (case variable_name index_expr of None \<Rightarrow> False | Some v \<Rightarrow> v \<in> all_inames knl)"

definition clear_temp_var_type :: "instruction \<Rightarrow> instruction" where
  "clear_temp_var_type insn = insn\<lparr>temp_var_type := None\<rparr>"

definition declared_names :: "instruction list \<Rightarrow> string list" where
  "declared_names insns =
     concat (map (\<lambda>insn. case temp_var_type insn of
                            None \<Rightarrow> []
                          | Some declared \<Rightarrow>
                              (case get_assignee_var_name insn of Inl e \<Rightarrow> [] | Inr n \<Rightarrow> [n]))
                 insns)"

definition declaration_ok ::
  "(loop_kernel \<Rightarrow> string list \<Rightarrow> error + (expr list \<times> expr list)) \<Rightarrow> loop_kernel
     \<Rightarrow> instruction \<Rightarrow> bool" where
  "declaration_ok find_shape knl insn \<longleftrightarrow>
     (case temp_var_type insn of
        None \<Rightarrow> True
      | Some declared \<Rightarrow>
          (case get_assignee_var_name insn of
             Inl e \<Rightarrow> False
           | Inr nm \<Rightarrow>
               (case get_assignee_indices insn of
                  Inl e \<Rightarrow> False
                | Inr idx \<Rightarrow>
                    list_all (plain_iname knl) idx
                    \<and> isl (find_shape knl (map (the \<circ> variable_name) idx)) = False
                    \<and> nm \<notin> fst ` set (temporary_variables knl)
                    \<and> nm \<notin> dom (arg_dict knl))))"

section \<open>Rejecting reduction iname duplication requests\<close>

definition startswith_at :: "string \<Rightarrow> bool" where
  "startswith_at iname = (case iname of [] \<Rightarrow> False | c # _ \<Rightarrow> c = CHR ''@'')"

text \<open>The callback \<^verbatim>\<open>check_reduction_inames\<close> on the inames of one reduction node.\<close>

fun check_reduction_inames :: "string list \<Rightarrow> error + unit" where
  "check_reduction_inames [] = Inr ()"
| "check_reduction_inames (iname # rest) =
     (if startswith_at iname then Inl ReductionInameDuplication
      else check_reduction_inames rest)"

text \<open>The mapper \<^verbatim>\<open>rcm\<close> on one expression: the callback on each of its reduction nodes.\<close>

fun rcm_nodes :: "(string list \<times> expr) list \<Rightarrow> error + unit" where
  "rcm_nodes [] = Inr ()"
| "rcm_nodes (node # rest) =
     (case check_reduction_inames (fst node) of
        Inl e \<Rightarrow> Inl e
      | Inr _ \<Rightarrow> rcm_nodes rest)"

definition rcm :: "expr \<Rightarrow> error + unit" where
  "rcm e = rcm_nodes (reduction_nodes e)"

fun rcm_all :: "expr list \<Rightarrow> error + unit" where
  "rcm_all [] = Inr ()"
| "rcm_all (e # es) = (case rcm e of Inl err \<Rightarrow> Inl err | Inr _ \<Rightarrow> rcm_all es)"

definition check_for_reduction_inames_duplication_requests :: "loop_kernel \<Rightarrow> error + unit" where
  "check_for_reduction_inames_duplication_requests knl =
     (case rcm_all (map expression (instructions knl)) of
        Inl e \<Rightarrow> Inl e
      | Inr _ \<Rightarrow> rcm_all (map (\<lambda>(sub_name, sub_rule). subst_expression sub_rule)
                                (substitutions knl)))"

text \<open>
  An expression asks for the duplication of a reduction iname when the inames of one of
  its reduction nodes hold a name that starts with \<open>@\<close>.
\<close>

definition duplication_request :: "expr \<Rightarrow> bool" where
  "duplication_request e \<longleftrightarrow>
     (\<exists>node\<in>set (reduction_nodes e). \<exists>iname\<in>set (fst node). startswith_at iname)"

section \<open>The passes of kernel creation\<close>

text \<open>
  \<^verbatim>\<open>make_kernel\<close> from the constructed \<^verbatim>\<open>LoopKernel\<close> on: the two checks, the three
  passes and the three final checks, in the order of the source. The constructor itself
  and the parsing before it are not part of this function.
\<close>

definition make_kernel_passes ::
  "(loop_kernel \<Rightarrow> string list \<Rightarrow> error + (expr list \<times> expr list)) \<Rightarrow> loop_kernel
     \<Rightarrow> error + loop_kernel" where
  "make_kernel_passes find_shape knl =
     (case check_for_nonexistent_iname_deps knl of Inl e \<Rightarrow> Inl e | Inr _ \<Rightarrow>
     (case check_for_reduction_inames_duplication_requests knl of Inl e \<Rightarrow> Inl e | Inr _ \<Rightarrow>
     (case tag_reduction_inames_as_sequential knl of Inl e \<Rightarrow> Inl e | Inr knl1 \<Rightarrow>
     (case create_temporaries find_shape knl1 of Inl e \<Rightarrow> Inl e | Inr knl2 \<Rightarrow>
     (case check_for_multiple_writes_to_loop_bounds (expand_cses knl2) of
        Inl e \<Rightarrow> Inl e | Inr _ \<Rightarrow>
     (case check_for_duplicate_names (expand_cses knl2) of Inl e \<Rightarrow> Inl e | Inr _ \<Rightarrow>
     (case check_written_variable_names (expand_cses knl2) of Inl e \<Rightarrow> Inl e | Inr _ \<Rightarrow>
        Inr (expand_cses knl2))))))))"

section \<open>Callables of the library (function.py)\<close>

type_synonym id_to_dtype = "(arg_id, dtype option) fmap"

record scalar_callable =
  name :: string
  arg_id_to_dtype :: "id_to_dtype option"
  name_in_target :: "string option"

text \<open>
  The loop of \<^verbatim>\<open>MakeTupleCallable.with_types\<close>: \<open>m\<close> is the argument
  \<^verbatim>\<open>arg_id_to_dtype\<close>, \<open>new\<close> the copy that is updated, and the list holds the values
  of \<^verbatim>\<open>i\<close> still to come. A type that is \<^verbatim>\<open>None\<close> is \<open>Some None\<close> in the map; the read
  \<^verbatim>\<open>new_arg_id_to_dtype[i]\<close> raises KeyError on a missing key.
\<close>

fun with_types_loop :: "id_to_dtype \<Rightarrow> nat list \<Rightarrow> id_to_dtype \<Rightarrow> error + id_to_dtype" where
  "with_types_loop m [] new = Inr new"
| "with_types_loop m (i # is) new =
     (if Pos (int i) |\<in>| fmdom m \<and> fmlookup m (Pos (int i)) \<noteq> Some None then
        (case fmlookup new (Pos (int i)) of
           None \<Rightarrow> Inl (KeyErrorId (Pos (int i)))
         | Some v \<Rightarrow> with_types_loop m is (fmupd (Pos (- int i - 1)) v new))
      else with_types_loop m is new)"

definition new_arg_id_to_dtype :: "id_to_dtype \<Rightarrow> error + id_to_dtype" where
  "new_arg_id_to_dtype m = with_types_loop m [0 ..< fcard (fmdom m)] m"

definition with_types ::
  "scalar_callable \<Rightarrow> id_to_dtype \<Rightarrow> 'k \<Rightarrow> 'p \<Rightarrow> error + (scalar_callable \<times> 'p)" where
  "with_types self m knl program_callables_info =
     (case new_arg_id_to_dtype m of
        Inl e \<Rightarrow> Inl e
      | Inr new \<Rightarrow>
          Inr (self\<lparr>arg_id_to_dtype := Some new, name_in_target := Some ''loopy_make_tuple''\<rparr>,
               program_callables_info))"

section \<open>Example kernels\<close>

text \<open>
  A kernel that sums \<open>a[i, j]\<close> over \<open>i\<close> in its one instruction, and a kernel whose
  instruction calls a substitution rule that holds the same reduction. The tags of the
  inames are the parameter.
\<close>

definition kernel_sum_over_i :: "(string \<rightharpoonup> iname_tag) \<Rightarrow> loop_kernel" where
  "kernel_sum_over_i tags =
     \<lparr>domains = [\<lparr>set_dim_names = [Some ''i'', Some ''j''], param_dim_names = [''n''],
                  constraints = ''0<=i,j<n''\<rparr>],
      instructions = [\<lparr>insn_id = Some ''insn'', insn_deps = {}, forced_iname_deps = {},
                       assignee = Subscript (Variable ''out'') [Variable ''j''],
                       expression = Reduction ''sum'' [''i'']
                                      (Subscript (Variable ''a'') [Variable ''i'', Variable ''j'']),
                       temp_var_type = None, priority = 0\<rparr>],
      args = [GlobalArg ''a'', GlobalArg ''out'', ValueArg ''n''],
      iname_to_tag = tags,
      temporary_variables = [],
      substitutions = []\<rparr>"

definition kernel_sum_in_rule :: "(string \<rightharpoonup> iname_tag) \<Rightarrow> loop_kernel" where
  "kernel_sum_in_rule tags =
     \<lparr>domains = [\<lparr>set_dim_names = [Some ''i'', Some ''j''], param_dim_names = [''n''],
                  constraints = ''0<=i,j<n''\<rparr>],
      instructions = [\<lparr>insn_id = Some ''insn'', insn_deps = {}, forced_iname_deps = {},
                       assignee = Subscript (Variable ''out'') [Variable ''j''],
                       expression = Call (Variable ''rowsum'') [Variable ''j''],
                       temp_var_type = None, priority = 0\<rparr>],
      args = [GlobalArg ''a'', GlobalArg ''out'', ValueArg ''n''],
      iname_to_tag = tags,
      temporary_variables = [],
      substitutions = [(''rowsum'',
          \<lparr>subst_name = ''rowsum'', subst_arguments = [''k''],
           subst_expression = Reduction ''sum'' [''i'']
                                (Subscript (Variable ''a'') [Variable ''i'', Variable ''k''])\<rparr>)]\<rparr>"

text \<open>
  A kernel whose domain \<open>0 \<le> i < n\<close> has the temporary \<open>n\<close> as its parameter; the
  instructions are the parameter.
\<close>

definition assign :: "string \<Rightarrow> expr \<Rightarrow> expr \<Rightarrow> instruction" where
  "assign ident lhs rhs =
     \<lparr>insn_id = Some ident, insn_deps = {}, forced_iname_deps = {}, assignee = lhs,
      expression = rhs, temp_var_type = None, priority = 0\<rparr>"

definition kernel_bound_n :: "instruction list \<Rightarrow> loop_kernel" where
  "kernel_bound_n insns =
     \<lparr>domains = [\<lparr>set_dim_names = [Some ''i''], param_dim_names = [''n''],
                  constraints = ''0<=i<n''\<rparr>],
      instructions = insns,
      args = [GlobalArg ''a'', GlobalArg ''out''],
      iname_to_tag = Map.empty,
      temporary_variables = [(''n'', \<lparr>tv_name = ''n'', tv_dtype = DType ''int32'',
                                      tv_is_local = None, tv_base_indices = [], tv_shape = []\<rparr>)],
      substitutions = []\<rparr>"

text \<open>
  The kernel of the end-to-end example of the spec, with the temporary \<open>tmp\<close> declared
  in its first instruction and indexed by the given expression; \<open>shape_n\<close> stands for the
  shape inference, giving base index 0 and extent \<open>n\<close> for every index.
\<close>

definition kernel_declared_tmp :: "expr \<Rightarrow> loop_kernel" where
  "kernel_declared_tmp index_expr =
     \<lparr>domains = [\<lparr>set_dim_names = [Some ''i''], param_dim_names = [''n''],
                  constraints = ''0<=i<n''\<rparr>],
      instructions =
        [(assign ''insn_0'' (Subscript (Variable ''tmp'') [index_expr])
            (Sum [Subscript (Variable ''a'') [Variable ''i''], Constant 1]))
           \<lparr>temp_var_type := Some (DType ''float64'')\<rparr>,
         assign ''insn_1'' (Subscript (Variable ''out'') [Variable ''i''])
            (Product [Subscript (Variable ''tmp'') [Variable ''i''], Constant 2])],
      args = [GlobalArg ''a'', GlobalArg ''out'', ValueArg ''n''],
      iname_to_tag = Map.empty,
      temporary_variables = [],
      substitutions = []\<rparr>"

definition shape_n :: "loop_kernel \<Rightarrow> string list \<Rightarrow> error + (expr list \<times> expr list)" where
  "shape_n knl inames = Inr (map (\<lambda>i. Constant 0) inames, map (\<lambda>i. Variable ''n'') inames)"



text \<open>
  Sets over \<open>i\<close> and \<open>j\<close>, a reader that knows two domain texts, and a template
  parser that rejects every replacement with a backslash.
\<close>

definition set_i :: basic_set where
  "set_i = \<lparr>set_dim_names = [Some ''i''], param_dim_names = [''n''],
            constraints = ''0<=i<n''\<rparr>"

definition set_j :: basic_set where
  "set_j = \<lparr>set_dim_names = [Some ''j''], param_dim_names = [''i''],
            constraints = ''0<=j<i''\<rparr>"

definition set_i_below_j :: basic_set where
  "set_i_below_j = \<lparr>set_dim_names = [Some ''i''], param_dim_names = [''j''],
            constraints = ''0<=i<j''\<rparr>"

definition set_j_below_n :: basic_set where
  "set_j_below_n = \<lparr>set_dim_names = [Some ''j''], param_dim_names = [''n''],
            constraints = ''0<=j<n''\<rparr>"

definition read_two_sets :: "string \<Rightarrow> error + basic_set" where
  "read_two_sets text =
     (if text = ''[n] -> {[i]: 0<=i<n}'' then Inr set_i
      else if text = ''[i] -> {[j]: 0<=j<i}'' then Inr set_j
      else Inl (DomainParseError text))"

definition no_template :: "pattern \<Rightarrow> string \<Rightarrow> template" where
  "no_template pat repl = CompileError (TemplateError repl)"

text \<open>
  A kernel whose instruction sums \<open>b[j, k]\<close> over \<open>j\<close> and calls the substitution rule
  \<open>rowsum\<close>, which sums \<open>a[i, k]\<close> over \<open>i\<close>.
\<close>

definition kernel_sums_in_both :: "(string \<rightharpoonup> iname_tag) \<Rightarrow> loop_kernel" where
  "kernel_sums_in_both tags =
     \<lparr>domains = [\<lparr>set_dim_names = [Some ''i'', Some ''j'', Some ''k''],
                  param_dim_names = [''n''], constraints = ''0<=i,j,k<n''\<rparr>],
      instructions = [\<lparr>insn_id = Some ''insn'', insn_deps = {}, forced_iname_deps = {},
                       assignee = Subscript (Variable ''out'') [Variable ''k''],
                       expression = Sum [Reduction ''sum'' [''j'']
                                           (Subscript (Variable ''b'') [Variable ''j'', Variable ''k'']),
                                         Call (Variable ''rowsum'') [Variable ''k'']],
                       temp_var_type = None, priority = 0\<rparr>],
      args = [GlobalArg ''a'', GlobalArg ''b'', GlobalArg ''out'', ValueArg ''n''],
      iname_to_tag = tags,
      temporary_variables = [],
      substitutions = [(''rowsum'',
          \<lparr>subst_name = ''rowsum'', subst_arguments = [''k''],
           subst_expression = Reduction ''sum'' [''i'']
                                (Subscript (Variable ''a'') [Variable ''i'', Variable ''k''])\<rparr>)]\<rparr>"

section \<open>Reduction inames are sequential\<close>

lemma new_iname_to_tag_loop_parallel:
  "\<exists>i\<in>set xs. \<exists>t. itt i = Some t \<and> is_ParallelTag t \<Longrightarrow>
   \<exists>i\<in>set xs. \<exists>t. itt i = Some t \<and> is_ParallelTag t
      \<and> new_iname_to_tag_loop itt xs new = Inl (ReductionInameParallel i)"
proof (induction xs arbitrary: new)
  case Nil
  then show ?case by simp
next
  case (Cons x xs)
  show ?case
  proof (cases "\<exists>t. itt x = Some t \<and> is_ParallelTag t")
    case True
    then show ?thesis by auto
  next
    case False
    with Cons.prems have "\<exists>i\<in>set xs. \<exists>t. itt i = Some t \<and> is_ParallelTag t" by auto
    from Cons.IH[OF this] show ?thesis using False
      by (cases "itt x") auto
  qed
qed

lemma new_iname_to_tag_loop_sequential:
  "\<forall>i\<in>set xs. \<forall>t. itt i = Some t \<longrightarrow> \<not> is_ParallelTag t \<Longrightarrow>
   new_iname_to_tag_loop itt xs new
     = Inr (\<lambda>i. if i \<in> set xs \<and> itt i = None then Some ForceSequentialTag else new i)"
proof (induction xs arbitrary: new)
  case Nil
  then show ?case by simp
next
  case (Cons x xs)
  then have ih: "\<And>new. new_iname_to_tag_loop itt xs new
     = Inr (\<lambda>i. if i \<in> set xs \<and> itt i = None then Some ForceSequentialTag else new i)"
    by simp
  show ?case
  proof (cases "itt x")
    case None
    then show ?thesis by (simp add: ih) (rule ext, auto)
  next
    case (Some t)
    then have "\<not> is_ParallelTag t" using Cons.prems by simp
    then show ?thesis using Some by (simp add: ih) (rule ext, auto)
  qed
qed

lemma reduction_inames_of_instructions_iff:
  "i \<in> set (reduction_inames_of_instructions knl) \<longleftrightarrow> collected_reduction_iname knl i"
  by (auto simp: reduction_inames_of_instructions_def map_reduction_result_def
        collected_reduction_iname_def)

text \<open>
  What the pass does with the inames it collects. It fails with the error that names the
  iname when one of them carries a parallel tag. Otherwise it returns the kernel after
  one call of \<^verbatim>\<open>tag_inames\<close>, made after the scan and the loop over its result, with
  the mapping that gives exactly the collected inames without a tag the tag
  \<^verbatim>\<open>ForceSequentialTag\<close>: in the kernel returned each of them carries that tag and
  every other iname keeps what it had.
\<close>

lemma tag_reduction_inames_as_sequential_collected:
  "((\<exists>i t. collected_reduction_iname knl i \<and> iname_to_tag knl i = Some t \<and> is_ParallelTag t)
      \<longrightarrow> (\<exists>i t. collected_reduction_iname knl i \<and> iname_to_tag knl i = Some t \<and> is_ParallelTag t
                 \<and> tag_reduction_inames_as_sequential knl = Inl (ReductionInameParallel i)))
   \<and> (\<not> (\<exists>i t. collected_reduction_iname knl i \<and> iname_to_tag knl i = Some t \<and> is_ParallelTag t)
      \<longrightarrow> tag_reduction_inames_as_sequential knl
            = Inr (tag_inames knl
                     (\<lambda>i. if collected_reduction_iname knl i \<and> iname_to_tag knl i = None
                          then Some ForceSequentialTag else None))
          \<and> (\<forall>knl' i. tag_reduction_inames_as_sequential knl = Inr knl'
                \<longrightarrow> iname_to_tag knl' i
                     = (if collected_reduction_iname knl i \<and> iname_to_tag knl i = None
                        then Some ForceSequentialTag else iname_to_tag knl i)))"
proof -
  let ?R = "reduction_inames_of_instructions knl"
  let ?new = "\<lambda>i. if collected_reduction_iname knl i \<and> iname_to_tag knl i = None
                   then Some ForceSequentialTag else None"
  have par: "\<exists>i t. collected_reduction_iname knl i \<and> iname_to_tag knl i = Some t \<and> is_ParallelTag t
                 \<and> tag_reduction_inames_as_sequential knl = Inl (ReductionInameParallel i)"
    if "\<exists>i t. collected_reduction_iname knl i \<and> iname_to_tag knl i = Some t \<and> is_ParallelTag t"
  proof -
    from that have "\<exists>i\<in>set ?R. \<exists>t. iname_to_tag knl i = Some t \<and> is_ParallelTag t"
      by (meson reduction_inames_of_instructions_iff)
    from new_iname_to_tag_loop_parallel[OF this, of Map.empty]
    obtain i t where i: "i \<in> set ?R" "iname_to_tag knl i = Some t" "is_ParallelTag t"
      "new_iname_to_tag_loop (iname_to_tag knl) ?R Map.empty = Inl (ReductionInameParallel i)"
      by blast
    then have "tag_reduction_inames_as_sequential knl = Inl (ReductionInameParallel i)"
      by (simp add: tag_reduction_inames_as_sequential_def)
    with i show ?thesis
      by (meson reduction_inames_of_instructions_iff)
  qed
  have seq: "tag_reduction_inames_as_sequential knl = Inr (tag_inames knl ?new)"
    if "\<not> (\<exists>i t. collected_reduction_iname knl i \<and> iname_to_tag knl i = Some t \<and> is_ParallelTag t)"
  proof -
    from that have "\<forall>i\<in>set ?R. \<forall>t. iname_to_tag knl i = Some t \<longrightarrow> \<not> is_ParallelTag t"
      by (meson reduction_inames_of_instructions_iff)
    from new_iname_to_tag_loop_sequential[OF this, of Map.empty]
    show ?thesis
      by (simp add: tag_reduction_inames_as_sequential_def reduction_inames_of_instructions_iff)
  qed
  have tags: "\<forall>i. iname_to_tag (tag_inames knl ?new) i
                     = (if collected_reduction_iname knl i \<and> iname_to_tag knl i = None
                        then Some ForceSequentialTag else iname_to_tag knl i)"
    by (simp add: tag_inames_def map_add_def)
  show ?thesis
    using par seq tags by auto
qed

lemma tag_reduction_inames_as_sequential_collected_example:
  "tag_reduction_inames_as_sequential (kernel_sum_over_i [''i'' \<mapsto> ParallelTag ''l.0''])
     = Inl (ReductionInameParallel ''i'')
   \<and> (\<exists>knl'. tag_reduction_inames_as_sequential (kernel_sum_over_i Map.empty) = Inr knl'
         \<and> iname_to_tag knl' ''i'' = Some ForceSequentialTag
         \<and> iname_to_tag knl' ''j'' = None)"
proof -
  have r: "\<And>tags i. collected_reduction_iname (kernel_sum_over_i tags) i \<longleftrightarrow> i = ''i''"
    by (auto simp: collected_reduction_iname_def kernel_sum_over_i_def)
  have t: "\<And>tags. iname_to_tag (kernel_sum_over_i tags) = tags"
    by (simp add: kernel_sum_over_i_def)
  have "\<exists>i t. collected_reduction_iname (kernel_sum_over_i [''i'' \<mapsto> ParallelTag ''l.0'']) i
           \<and> iname_to_tag (kernel_sum_over_i [''i'' \<mapsto> ParallelTag ''l.0'']) i = Some t
           \<and> is_ParallelTag t"
    by (simp add: r t)
  with tag_reduction_inames_as_sequential_collected[of "kernel_sum_over_i [''i'' \<mapsto> ParallelTag ''l.0'']"]
  have a: "tag_reduction_inames_as_sequential (kernel_sum_over_i [''i'' \<mapsto> ParallelTag ''l.0''])
     = Inl (ReductionInameParallel ''i'')"
    by (auto simp: r)
  have "\<not> (\<exists>i t. collected_reduction_iname (kernel_sum_over_i Map.empty) i
           \<and> iname_to_tag (kernel_sum_over_i Map.empty) i = Some t \<and> is_ParallelTag t)"
    by (simp add: t)
  with tag_reduction_inames_as_sequential_collected[of "kernel_sum_over_i Map.empty"]
  have b: "\<exists>knl'. tag_reduction_inames_as_sequential (kernel_sum_over_i Map.empty) = Inr knl'
         \<and> iname_to_tag knl' ''i'' = Some ForceSequentialTag
         \<and> iname_to_tag knl' ''j'' = None"
    by (simp add: r t)
  from a b show ?thesis by blast
qed

text \<open>
  C1. The pass does not fail for every parallel iname of a reduction node, and does not
  tag every untagged one: the reduction over \<open>i\<close> in the substitution rule of
  \<open>kernel_sums_in_both\<close> is not collected. With \<open>i\<close> tagged parallel the pass returns
  a kernel in which \<open>i\<close> is still parallel; with no tags it returns a kernel in which
  \<open>i\<close> has no tag. The reduction over \<open>j\<close> in the instruction is treated as stated:
  \<open>j\<close> is tagged \<^verbatim>\<open>ForceSequentialTag\<close>, and a parallel \<open>j\<close> is an error.
\<close>

theorem tag_reduction_parallel_iname_in_rule_accepted:
  "(\<exists>sub\<in>set (substitutions (kernel_sums_in_both [''i'' \<mapsto> ParallelTag ''g.0''])).
      \<exists>node\<in>set (reduction_nodes (subst_expression (snd sub))). ''i'' \<in> set (fst node))
   \<and> iname_to_tag (kernel_sums_in_both [''i'' \<mapsto> ParallelTag ''g.0'']) ''i''
       = Some (ParallelTag ''g.0'')
   \<and> (\<exists>knl'. tag_reduction_inames_as_sequential
                (kernel_sums_in_both [''i'' \<mapsto> ParallelTag ''g.0'']) = Inr knl'
         \<and> iname_to_tag knl' ''i'' = Some (ParallelTag ''g.0'')
         \<and> iname_to_tag knl' ''j'' = Some ForceSequentialTag)
   \<and> (\<exists>knl'. tag_reduction_inames_as_sequential (kernel_sums_in_both Map.empty) = Inr knl'
         \<and> iname_to_tag knl' ''i'' = None
         \<and> iname_to_tag knl' ''j'' = Some ForceSequentialTag)
   \<and> tag_reduction_inames_as_sequential (kernel_sums_in_both [''j'' \<mapsto> ParallelTag ''g.0''])
       = Inl (ReductionInameParallel ''j'')"
  by (simp add: tag_reduction_inames_as_sequential_def reduction_inames_of_instructions_def
      map_reduction_result_def kernel_sums_in_both_def tag_inames_def)

text \<open>
  C2. The scan runs over \<^verbatim>\<open>knl.instructions\<close> only. A reduction over \<open>i\<close> that stands in
  a substitution rule is not collected: with \<open>i\<close> tagged parallel the pass does not fail,
  and with \<open>i\<close> untagged it leaves \<open>i\<close> untagged. The same reduction in an instruction is
  rejected.
\<close>

theorem tag_reduction_inames_skips_substitution_rules:
  "tag_reduction_inames_as_sequential (kernel_sum_in_rule [''i'' \<mapsto> ParallelTag ''l.0''])
     = Inr (kernel_sum_in_rule [''i'' \<mapsto> ParallelTag ''l.0''])
   \<and> tag_reduction_inames_as_sequential (kernel_sum_in_rule Map.empty)
     = Inr (kernel_sum_in_rule Map.empty)
   \<and> tag_reduction_inames_as_sequential (kernel_sum_over_i [''i'' \<mapsto> ParallelTag ''l.0''])
     = Inl (ReductionInameParallel ''i'')"
  by (simp add: tag_reduction_inames_as_sequential_def reduction_inames_of_instructions_def
      map_reduction_result_def kernel_sum_in_rule_def kernel_sum_over_i_def tag_inames_def)

section \<open>Tuple packing: type inference\<close>

lemma with_types_loop_inv:
  assumes "\<forall>j\<ge>0. fmlookup new (Pos j) = fmlookup m (Pos j)"
  shows "\<exists>new'. with_types_loop m is new = Inr new'
          \<and> (\<forall>j\<ge>0. fmlookup new' (Pos j) = fmlookup m (Pos j))
          \<and> (\<forall>k. fmlookup new' (Kw k) = fmlookup new (Kw k))
          \<and> (\<forall>i\<in>set is. \<forall>t. fmlookup m (Pos (int i)) = Some (Some t)
                \<longrightarrow> fmlookup new' (Pos (- int i - 1)) = Some (Some t))
          \<and> (\<forall>j<0. (\<forall>i\<in>set is. (\<exists>t. fmlookup m (Pos (int i)) = Some (Some t))
                                      \<longrightarrow> j \<noteq> - int i - 1)
                \<longrightarrow> fmlookup new' (Pos j) = fmlookup new (Pos j))"
  using assms
proof (induction "is" arbitrary: new)
  case Nil
  then show ?case by simp
next
  case (Cons i "is")
  show ?case
  proof (cases "Pos (int i) |\<in>| fmdom m \<and> fmlookup m (Pos (int i)) \<noteq> Some None")
    case False
    then have nk: "\<And>t. fmlookup m (Pos (int i)) \<noteq> Some (Some t)"
      by (auto simp: fmdom_notI)
    from Cons.IH[OF Cons.prems] obtain new' where
      n: "with_types_loop m is new = Inr new'"
        "\<forall>j\<ge>0. fmlookup new' (Pos j) = fmlookup m (Pos j)"
        "\<forall>k. fmlookup new' (Kw k) = fmlookup new (Kw k)"
        "\<forall>i\<in>set is. \<forall>t. fmlookup m (Pos (int i)) = Some (Some t)
                \<longrightarrow> fmlookup new' (Pos (- int i - 1)) = Some (Some t)"
        "\<forall>j<0. (\<forall>i\<in>set is. (\<exists>t. fmlookup m (Pos (int i)) = Some (Some t))
                                      \<longrightarrow> j \<noteq> - int i - 1)
                \<longrightarrow> fmlookup new' (Pos j) = fmlookup new (Pos j)"
      by blast
    have run: "with_types_loop m (i # is) new = Inr new'"
      using False n(1) by auto
    have c4: "\<forall>i'\<in>set (i # is). \<forall>t'. fmlookup m (Pos (int i')) = Some (Some t')
                \<longrightarrow> fmlookup new' (Pos (- int i' - 1)) = Some (Some t')"
      using n(4) nk by auto
    have c5: "\<forall>j<0. (\<forall>i'\<in>set (i # is). (\<exists>t. fmlookup m (Pos (int i')) = Some (Some t))
                                      \<longrightarrow> j \<noteq> - int i' - 1)
                \<longrightarrow> fmlookup new' (Pos j) = fmlookup new (Pos j)"
      using n(5) by auto
    show ?thesis using run n(2,3) c4 c5 by blast
  next
    case True
    then obtain t where t: "fmlookup m (Pos (int i)) = Some (Some t)"
      by (cases "fmlookup m (Pos (int i))") (auto simp: fmdom_notI)
    with Cons.prems have tn: "fmlookup new (Pos (int i)) = Some (Some t)" by simp
    let ?new1 = "fmupd (Pos (- int i - 1)) (Some t) new"
    have p1: "\<forall>j\<ge>0. fmlookup ?new1 (Pos j) = fmlookup m (Pos j)"
      using Cons.prems by auto
    from Cons.IH[OF p1] obtain new' where
      n: "with_types_loop m is ?new1 = Inr new'"
        "\<forall>j\<ge>0. fmlookup new' (Pos j) = fmlookup m (Pos j)"
        "\<forall>k. fmlookup new' (Kw k) = fmlookup ?new1 (Kw k)"
        "\<forall>i\<in>set is. \<forall>t. fmlookup m (Pos (int i)) = Some (Some t)
                \<longrightarrow> fmlookup new' (Pos (- int i - 1)) = Some (Some t)"
        "\<forall>j<0. (\<forall>i\<in>set is. (\<exists>t. fmlookup m (Pos (int i)) = Some (Some t))
                                      \<longrightarrow> j \<noteq> - int i - 1)
                \<longrightarrow> fmlookup new' (Pos j) = fmlookup ?new1 (Pos j)"
      by blast
    have run: "with_types_loop m (i # is) new = Inr new'"
      using True tn n(1) by simp
    have head: "fmlookup new' (Pos (- int i - 1)) = Some (Some t)"
    proof (cases "i \<in> set is")
      case True
      then show ?thesis using n(4) t by blast
    next
      case False
      then have "\<forall>i'\<in>set is. - int i - 1 \<noteq> - int i' - 1" by auto
      then have "fmlookup new' (Pos (- int i - 1)) = fmlookup ?new1 (Pos (- int i - 1))"
        using n(5) by simp
      then show ?thesis by simp
    qed
    have c4: "\<forall>i'\<in>set (i # is). \<forall>t'. fmlookup m (Pos (int i')) = Some (Some t')
                \<longrightarrow> fmlookup new' (Pos (- int i' - 1)) = Some (Some t')"
      using head t n(4) by auto
    have c5: "\<forall>j<0. (\<forall>i'\<in>set (i # is). (\<exists>t. fmlookup m (Pos (int i')) = Some (Some t))
                                      \<longrightarrow> j \<noteq> - int i' - 1)
                \<longrightarrow> fmlookup new' (Pos j) = fmlookup new (Pos j)"
    proof (intro allI impI)
      fix j :: int
      assume j: "j < 0"
        and h: "\<forall>i'\<in>set (i # is). (\<exists>t. fmlookup m (Pos (int i')) = Some (Some t))
                                      \<longrightarrow> j \<noteq> - int i' - 1"
      from h t have ne: "j \<noteq> - int i - 1" by auto
      from h have "\<forall>i'\<in>set is. (\<exists>t. fmlookup m (Pos (int i')) = Some (Some t))
                                      \<longrightarrow> j \<noteq> - int i' - 1" by simp
      with n(5) j have "fmlookup new' (Pos j) = fmlookup ?new1 (Pos j)" by blast
      then show "fmlookup new' (Pos j) = fmlookup new (Pos j)" using ne by simp
    qed
    have c3: "\<forall>k. fmlookup new' (Kw k) = fmlookup new (Kw k)"
      using n(3) by simp
    show ?thesis using run n(2) c3 c4 c5 by blast
  qed
qed

text \<open>
  C9, as the code has it. The call never raises; it returns the callable with the target
  name \<^verbatim>\<open>loopy_make_tuple\<close> and a mapping \<open>new\<close> that is the input but for the mirrored
  entries. The loop runs over \<^verbatim>\<open>range(len(arg_id_to_dtype))\<close>: for every argument
  position \<open>i\<close> below the number of entries of the input whose type is known, \<open>new\<close>
  holds that type at the result position \<open>- i - 1\<close>. Every entry at an argument position
  (a key \<open>\<ge> 0\<close>) or at a keyword is the one of the input, and so is every entry at a
  negative position that is not \<open>- i - 1\<close> for such an \<open>i\<close>.
\<close>

theorem with_types_mirrors_known_types:
  "\<exists>new. with_types self m knl pci
            = Inr (self\<lparr>arg_id_to_dtype := Some new, name_in_target := Some ''loopy_make_tuple''\<rparr>, pci)
        \<and> (\<forall>i<fcard (fmdom m). \<forall>t. fmlookup m (Pos (int i)) = Some (Some t)
              \<longrightarrow> fmlookup new (Pos (- int i - 1)) = Some (Some t))
        \<and> (\<forall>j\<ge>0. fmlookup new (Pos j) = fmlookup m (Pos j))
        \<and> (\<forall>k. fmlookup new (Kw k) = fmlookup m (Kw k))
        \<and> (\<forall>j<0. \<not> (\<exists>i<fcard (fmdom m). j = - int i - 1
                          \<and> (\<exists>t. fmlookup m (Pos (int i)) = Some (Some t)))
              \<longrightarrow> fmlookup new (Pos j) = fmlookup m (Pos j))"
proof -
  have "\<forall>j\<ge>0. fmlookup m (Pos j) = fmlookup m (Pos j)" by simp
  from with_types_loop_inv[OF this, of "[0 ..< fcard (fmdom m)]"] obtain new where
    n: "with_types_loop m [0 ..< fcard (fmdom m)] m = Inr new"
      "\<forall>j\<ge>0. fmlookup new (Pos j) = fmlookup m (Pos j)"
      "\<forall>k. fmlookup new (Kw k) = fmlookup m (Kw k)"
      "\<forall>i\<in>set [0 ..< fcard (fmdom m)]. \<forall>t. fmlookup m (Pos (int i)) = Some (Some t)
            \<longrightarrow> fmlookup new (Pos (- int i - 1)) = Some (Some t)"
      "\<forall>j<0. (\<forall>i\<in>set [0 ..< fcard (fmdom m)]. (\<exists>t. fmlookup m (Pos (int i)) = Some (Some t))
                                      \<longrightarrow> j \<noteq> - int i - 1)
                \<longrightarrow> fmlookup new (Pos j) = fmlookup m (Pos j)"
    by blast
  have c1: "with_types self m knl pci
      = Inr (self\<lparr>arg_id_to_dtype := Some new, name_in_target := Some ''loopy_make_tuple''\<rparr>, pci)"
    using n(1) by (simp add: with_types_def new_arg_id_to_dtype_def)
  have c2: "\<forall>i<fcard (fmdom m). \<forall>t. fmlookup m (Pos (int i)) = Some (Some t)
              \<longrightarrow> fmlookup new (Pos (- int i - 1)) = Some (Some t)"
    using n(4) by simp
  have c5: "\<forall>j<0. \<not> (\<exists>i<fcard (fmdom m). j = - int i - 1
                          \<and> (\<exists>t. fmlookup m (Pos (int i)) = Some (Some t)))
              \<longrightarrow> fmlookup new (Pos j) = fmlookup m (Pos j)"
  proof (intro allI impI)
    fix j :: int
    assume j: "j < 0"
      and h: "\<not> (\<exists>i<fcard (fmdom m). j = - int i - 1
                          \<and> (\<exists>t. fmlookup m (Pos (int i)) = Some (Some t)))"
    then have "\<forall>i\<in>set [0 ..< fcard (fmdom m)]. (\<exists>t. fmlookup m (Pos (int i)) = Some (Some t))
                                      \<longrightarrow> j \<noteq> - int i - 1"
      by auto
    with n(5) j show "fmlookup new (Pos j) = fmlookup m (Pos j)" by blast
  qed
  from c1 c2 n(2,3) c5 show ?thesis by blast
qed

theorem with_types_mirrors_known_types_witness:
  "\<exists>new. with_types \<lparr>name = ''make_tuple'', arg_id_to_dtype = None, name_in_target = None\<rparr>
            (fmupd (Pos 0) (Some ''float32'') (fmupd (Pos 1) None fmempty)) () ()
          = Inr (\<lparr>name = ''make_tuple'', arg_id_to_dtype = Some new,
                  name_in_target = Some ''loopy_make_tuple''\<rparr>, ())
        \<and> fmlookup new (Pos (- 1)) = Some (Some ''float32'')
        \<and> fmlookup new (Pos (- 2)) = None
        \<and> fmlookup new (Pos 0) = Some (Some ''float32'')
        \<and> fmlookup new (Pos 1) = Some None"
proof -
  let ?m = "fmupd (Pos 0) (Some ''float32'') (fmupd (Pos 1) None fmempty)"
  let ?self = "\<lparr>name = ''make_tuple'', arg_id_to_dtype = None, name_in_target = None\<rparr>"
  have len: "fcard (fmdom ?m) = 2" by (simp add: fcard_finsert_if fcard_fempty)
  from with_types_mirrors_known_types[of ?self ?m "()" "()"] obtain new where
    n: "with_types ?self ?m () ()
        = Inr (?self\<lparr>arg_id_to_dtype := Some new, name_in_target := Some ''loopy_make_tuple''\<rparr>, ())"
      "\<forall>i<fcard (fmdom ?m). \<forall>t. fmlookup ?m (Pos (int i)) = Some (Some t)
              \<longrightarrow> fmlookup new (Pos (- int i - 1)) = Some (Some t)"
      "\<forall>j\<ge>0. fmlookup new (Pos j) = fmlookup ?m (Pos j)"
      "\<forall>j<0. \<not> (\<exists>i<fcard (fmdom ?m). j = - int i - 1
                          \<and> (\<exists>t. fmlookup ?m (Pos (int i)) = Some (Some t)))
              \<longrightarrow> fmlookup new (Pos j) = fmlookup ?m (Pos j)"
    by blast
  from n(2) len have a: "fmlookup new (Pos (- 1)) = Some (Some ''float32'')"
    by (auto dest!: spec[of _ 0])
  have "\<not> (\<exists>i<fcard (fmdom ?m). (- 2 :: int) = - int i - 1
                          \<and> (\<exists>t. fmlookup ?m (Pos (int i)) = Some (Some t)))"
  proof
    assume "\<exists>i<fcard (fmdom ?m). (- 2 :: int) = - int i - 1
                          \<and> (\<exists>t. fmlookup ?m (Pos (int i)) = Some (Some t))"
    then obtain i where i: "(- 2 :: int) = - int i - 1"
      "\<exists>t. fmlookup ?m (Pos (int i)) = Some (Some t)" by blast
    from i(1) have "i = 1" by arith
    with i(2) show False by simp
  qed
  with n(4) have b: "fmlookup new (Pos (- 2)) = fmlookup ?m (Pos (- 2))" by simp
  from n(3) have c: "fmlookup new (Pos 0) = fmlookup ?m (Pos 0)"
    "fmlookup new (Pos 1) = fmlookup ?m (Pos 1)" by simp_all
  from n(1) a b c show ?thesis by auto
qed

text \<open>
  C9 as it is stated fails: the mapping that holds the single entry \<open>1 \<mapsto> float32\<close> has
  one entry, the loop visits position 0 only, and the result has no entry at \<open>-2\<close>.
\<close>

theorem with_types_position_beyond_length_counterexample:
  "fmlookup (fmupd (Pos 1) (Some ''float32'') fmempty) (Pos 1) = Some (Some ''float32'')
   \<and> new_arg_id_to_dtype (fmupd (Pos 1) (Some ''float32'') fmempty)
       = Inr (fmupd (Pos 1) (Some ''float32'') fmempty)
   \<and> fmlookup (fmupd (Pos 1) (Some ''float32'') fmempty) (Pos (- 2)) = None"
  by (simp add: new_arg_id_to_dtype_def fcard_finsert_if fcard_fempty)

section \<open>Reduction iname duplication requests\<close>

lemma check_reduction_inames_eq:
  "check_reduction_inames inames
     = (if \<exists>iname\<in>set inames. startswith_at iname then Inl ReductionInameDuplication else Inr ())"
  by (induction inames) auto

lemma rcm_nodes_eq:
  "rcm_nodes nodes
     = (if \<exists>node\<in>set nodes. \<exists>iname\<in>set (fst node). startswith_at iname
        then Inl ReductionInameDuplication else Inr ())"
  by (induction nodes) (auto simp: check_reduction_inames_eq)

lemma rcm_all_eq:
  "rcm_all es = (if \<exists>e\<in>set es. duplication_request e then Inl ReductionInameDuplication else Inr ())"
  by (induction es) (auto simp: rcm_def rcm_nodes_eq duplication_request_def)

text \<open>
  C10. When a reduction node in the expression of an instruction or of a substitution
  rule names an iname that starts with \<open>@\<close>, the check raises its RuntimeError, and the
  passes of \<^verbatim>\<open>make_kernel\<close> end in an error (this one, or the one of the check of the
  forced iname dependencies that runs before it). Without such an iname the check passes.
\<close>

theorem reduction_iname_duplication_rejected:
  "((\<exists>insn\<in>set (instructions knl). duplication_request (expression insn))
     \<or> (\<exists>sub\<in>set (substitutions knl). duplication_request (subst_expression (snd sub)))
    \<longrightarrow> check_for_reduction_inames_duplication_requests knl = Inl ReductionInameDuplication
        \<and> (\<exists>e. make_kernel_passes find_shape knl = Inl e))
   \<and> (\<not> ((\<exists>insn\<in>set (instructions knl). duplication_request (expression insn))
     \<or> (\<exists>sub\<in>set (substitutions knl). duplication_request (subst_expression (snd sub))))
    \<longrightarrow> check_for_reduction_inames_duplication_requests knl = Inr ())"
proof -
  have chk: "check_for_reduction_inames_duplication_requests knl
      = (if (\<exists>insn\<in>set (instructions knl). duplication_request (expression insn))
             \<or> (\<exists>sub\<in>set (substitutions knl). duplication_request (subst_expression (snd sub)))
         then Inl ReductionInameDuplication else Inr ())"
    by (simp add: check_for_reduction_inames_duplication_requests_def rcm_all_eq
          case_prod_unfold)
  have "\<exists>e. make_kernel_passes find_shape knl = Inl e"
    if "check_for_reduction_inames_duplication_requests knl = Inl ReductionInameDuplication"
    using that by (cases "check_for_nonexistent_iname_deps knl") (simp_all add: make_kernel_passes_def)
  with chk show ?thesis by presburger
qed

theorem reduction_iname_duplication_rejected_witness:
  "check_for_reduction_inames_duplication_requests
     ((kernel_sum_in_rule Map.empty)\<lparr>substitutions :=
        [(''rowsum'', \<lparr>subst_name = ''rowsum'', subst_arguments = [''k''],
            subst_expression = Product [Constant 2, Reduction ''sum'' [''j'', ''@i'']
                                 (Subscript (Variable ''a'') [Variable ''i'', Variable ''k''])]\<rparr>)]\<rparr>)
     = Inl ReductionInameDuplication
   \<and> (\<exists>e. make_kernel_passes (\<lambda>knl inames. Inr ([], []))
     ((kernel_sum_in_rule Map.empty)\<lparr>substitutions :=
        [(''rowsum'', \<lparr>subst_name = ''rowsum'', subst_arguments = [''k''],
            subst_expression = Product [Constant 2, Reduction ''sum'' [''j'', ''@i'']
                                 (Subscript (Variable ''a'') [Variable ''i'', Variable ''k''])]\<rparr>)]\<rparr>)
      = Inl e)
   \<and> check_for_reduction_inames_duplication_requests (kernel_sum_over_i Map.empty) = Inr ()"
  using reduction_iname_duplication_rejected[of
     "(kernel_sum_in_rule Map.empty)\<lparr>substitutions :=
        [(''rowsum'', \<lparr>subst_name = ''rowsum'', subst_arguments = [''k''],
            subst_expression = Product [Constant 2, Reduction ''sum'' [''j'', ''@i'']
                                 (Subscript (Variable ''a'') [Variable ''i'', Variable ''k''])]\<rparr>)]\<rparr>"
     "\<lambda>knl inames. Inr ([], [])"]
    reduction_iname_duplication_rejected[of "kernel_sum_over_i Map.empty" "\<lambda>knl inames. Inr ([], [])"]
  by (simp add: duplication_request_def startswith_at_def kernel_sum_in_rule_def
        kernel_sum_over_i_def)

section \<open>One write to a data-dependent bound\<close>

lemma writer_map_loop_eq:
  assumes "\<forall>insn\<in>set insns. \<exists>n. get_assignee_var_name insn = Inr n"
  shows "writer_map_loop insns result
     = Inr (\<lambda>v. if insn_id ` {insn \<in> set insns. get_assignee_var_name insn = Inr v} = {}
                then result v
                else Some (insn_id ` {insn \<in> set insns. get_assignee_var_name insn = Inr v}
                           \<union> (case result v of None \<Rightarrow> {} | Some ws \<Rightarrow> ws)))"
  using assms
proof (induction insns arbitrary: result)
  case Nil
  then show ?case by simp
next
  case (Cons x xs)
  from Cons.prems obtain n where n: "get_assignee_var_name x = Inr n" by auto
  from Cons.prems have rest: "\<forall>insn\<in>set xs. \<exists>n. get_assignee_var_name insn = Inr n" by simp
  show ?case
    unfolding writer_map_loop.simps n sum.case Cons.IH[OF rest]
    by (rule arg_cong[where f = Inr], rule ext) (auto simp: n)
qed

lemma writer_map_eq:
  assumes "\<forall>insn\<in>set (instructions knl). \<exists>n. get_assignee_var_name insn = Inr n"
  shows "writer_map knl
     = Inr (\<lambda>v. if writers knl v = [] then None else Some (insn_id ` set (writers knl v)))"
proof -
  have eq: "\<And>v. {insn \<in> set (instructions knl). get_assignee_var_name insn = Inr v}
            = set (writers knl v)"
    by (auto simp: writers_def)
  show ?thesis
    unfolding writer_map_def writer_map_loop_eq[OF assms] eq by (simp cong: if_cong)
qed

lemma card_writer_ids:
  assumes "distinct (map insn_id (instructions knl))"
  shows "card (insn_id ` set (writers knl v)) = length (writers knl v)"
proof -
  have "distinct (map insn_id (writers knl v))"
    unfolding writers_def using assms by (rule distinct_map_filter)
  then have "card (set (map insn_id (writers knl v))) = length (map insn_id (writers knl v))"
    by (rule distinct_card)
  then show ?thesis by simp
qed

lemma par_writers_loop_ok:
  "par_writers_loop wmap tvs = Inr ()
     \<longleftrightarrow> (\<forall>tv\<in>set tvs. \<exists>ws. wmap tv = Some ws \<and> card ws = 1)"
  by (induction tvs) (auto split: option.splits)

lemma par_writers_loop_error:
  "par_writers_loop wmap tvs = Inl e \<Longrightarrow>
     \<exists>tv\<in>set tvs. (wmap tv = None \<and> e = KeyError tv)
        \<or> (\<exists>ws. wmap tv = Some ws \<and> card ws \<noteq> 1 \<and> e = LoopBoundWrites tv (card ws))"
  by (induction tvs) (auto split: option.splits if_splits)

lemma temp_var_domain_parameters_iff:
  "tv \<in> set (temp_var_domain_parameters knl) \<longleftrightarrow> data_dependent_bound knl tv"
  by (auto simp: temp_var_domain_parameters_def domain_parameters_def data_dependent_bound_def)

text \<open>
  C4. In a kernel whose instructions have distinct ids and assign to a variable or to a
  subscript of a variable, the check passes exactly when every temporary that is a
  parameter of a domain has one writing instruction; when the check raises, the error
  names such a temporary whose number of writers is not one: the KeyError of the lookup
  in the writer map for no writer, the RuntimeError with the number found otherwise.
\<close>

theorem single_writer_check:
  assumes ids: "distinct (map insn_id (instructions knl))"
    and lv: "\<forall>insn\<in>set (instructions knl). \<exists>n. get_assignee_var_name insn = Inr n"
  shows "(check_for_multiple_writes_to_loop_bounds knl = Inr ()
           \<longleftrightarrow> (\<forall>tv. data_dependent_bound knl tv \<longrightarrow> length (writers knl tv) = 1))
       \<and> (\<forall>e. check_for_multiple_writes_to_loop_bounds knl = Inl e
           \<longrightarrow> (\<exists>tv. data_dependent_bound knl tv \<and> length (writers knl tv) \<noteq> 1
                  \<and> e = (if writers knl tv = [] then KeyError tv
                         else LoopBoundWrites tv (length (writers knl tv)))))"
proof -
  let ?wmap = "\<lambda>v. if writers knl v = [] then None else Some (insn_id ` set (writers knl v))"
  have chk: "check_for_multiple_writes_to_loop_bounds knl
      = par_writers_loop ?wmap (temp_var_domain_parameters knl)"
    by (simp add: check_for_multiple_writes_to_loop_bounds_def writer_map_eq[OF lv])
  have one: "(\<exists>ws. ?wmap tv = Some ws \<and> card ws = 1) \<longleftrightarrow> length (writers knl tv) = 1" for tv
    using card_writer_ids[OF ids, of tv] by auto
  have ok: "check_for_multiple_writes_to_loop_bounds knl = Inr ()
           \<longleftrightarrow> (\<forall>tv. data_dependent_bound knl tv \<longrightarrow> length (writers knl tv) = 1)"
    unfolding chk par_writers_loop_ok
    by (simp only: one temp_var_domain_parameters_iff Ball_def)
  have err: "\<exists>tv. data_dependent_bound knl tv \<and> length (writers knl tv) \<noteq> 1
                  \<and> e = (if writers knl tv = [] then KeyError tv
                         else LoopBoundWrites tv (length (writers knl tv)))"
    if "check_for_multiple_writes_to_loop_bounds knl = Inl e" for e
  proof -
    from that have "par_writers_loop ?wmap (temp_var_domain_parameters knl) = Inl e"
      by (simp add: chk)
    from par_writers_loop_error[OF this] obtain tv where
      tv: "tv \<in> set (temp_var_domain_parameters knl)"
        "(?wmap tv = None \<and> e = KeyError tv)
          \<or> (\<exists>ws. ?wmap tv = Some ws \<and> card ws \<noteq> 1 \<and> e = LoopBoundWrites tv (card ws))"
      by blast
    have "length (writers knl tv) \<noteq> 1
                  \<and> e = (if writers knl tv = [] then KeyError tv
                         else LoopBoundWrites tv (length (writers knl tv)))"
      using tv(2) card_writer_ids[OF ids, of tv] by (auto split: if_splits)
    with tv(1) show ?thesis
      by (auto simp: temp_var_domain_parameters_iff)
  qed
  from ok err show ?thesis by blast
qed

theorem single_writer_check_witness:
  "check_for_multiple_writes_to_loop_bounds
     (kernel_bound_n [assign ''w0'' (Variable ''n'') (Constant 5),
                      assign ''w1'' (Subscript (Variable ''out'') [Variable ''i''])
                                    (Subscript (Variable ''a'') [Variable ''i''])]) = Inr ()
   \<and> check_for_multiple_writes_to_loop_bounds
     (kernel_bound_n [assign ''w0'' (Variable ''n'') (Constant 5),
                      assign ''w1'' (Variable ''n'') (Constant 6)])
       = Inl (LoopBoundWrites ''n'' 2)
   \<and> (\<exists>e. check_for_multiple_writes_to_loop_bounds
     (kernel_bound_n [assign ''w1'' (Subscript (Variable ''out'') [Variable ''i''])
                                    (Subscript (Variable ''a'') [Variable ''i''])]) = Inl e)"
proof -
  let ?K1 = "kernel_bound_n [assign ''w0'' (Variable ''n'') (Constant 5),
                      assign ''w1'' (Subscript (Variable ''out'') [Variable ''i''])
                                    (Subscript (Variable ''a'') [Variable ''i''])]"
  let ?K2 = "kernel_bound_n [assign ''w0'' (Variable ''n'') (Constant 5),
                      assign ''w1'' (Variable ''n'') (Constant 6)]"
  let ?K0 = "kernel_bound_n [assign ''w1'' (Subscript (Variable ''out'') [Variable ''i''])
                                    (Subscript (Variable ''a'') [Variable ''i''])]"
  have ddb: "\<And>insns tv. data_dependent_bound (kernel_bound_n insns) tv \<longleftrightarrow> tv = ''n''"
    by (auto simp: data_dependent_bound_def kernel_bound_n_def)
  have d1: "distinct (map insn_id (instructions ?K1))"
    and l1: "\<forall>insn\<in>set (instructions ?K1). \<exists>n. get_assignee_var_name insn = Inr n"
    by (simp_all add: kernel_bound_n_def assign_def get_assignee_var_name_def)
  have w1: "length (writers ?K1 ''n'') = 1"
    by (simp add: writers_def kernel_bound_n_def assign_def get_assignee_var_name_def)
  have a: "check_for_multiple_writes_to_loop_bounds ?K1 = Inr ()"
    using single_writer_check[OF d1 l1] w1 by (simp add: ddb)
  have d2: "distinct (map insn_id (instructions ?K2))"
    and l2: "\<forall>insn\<in>set (instructions ?K2). \<exists>n. get_assignee_var_name insn = Inr n"
    by (simp_all add: kernel_bound_n_def assign_def get_assignee_var_name_def)
  have w2: "writers ?K2 ''n'' = instructions ?K2"
    by (simp add: writers_def kernel_bound_n_def assign_def get_assignee_var_name_def)
  have len2: "length (instructions ?K2) = 2"
    by (simp add: kernel_bound_n_def)
  have "check_for_multiple_writes_to_loop_bounds ?K2 \<noteq> Inr ()"
    using single_writer_check[OF d2 l2] w2 len2 by (simp add: ddb)
  then obtain e where e: "check_for_multiple_writes_to_loop_bounds ?K2 = Inl e"
    by (cases "check_for_multiple_writes_to_loop_bounds ?K2") auto
  have ne: "instructions ?K2 \<noteq> []" using len2 by auto
  have b: "check_for_multiple_writes_to_loop_bounds ?K2 = Inl (LoopBoundWrites ''n'' 2)"
    using single_writer_check[OF d2 l2] e w2 len2 ne by (auto simp: ddb)
  have d0: "distinct (map insn_id (instructions ?K0))"
    and l0: "\<forall>insn\<in>set (instructions ?K0). \<exists>n. get_assignee_var_name insn = Inr n"
    by (simp_all add: kernel_bound_n_def assign_def get_assignee_var_name_def)
  have w0: "writers ?K0 ''n'' = []"
    by (simp add: writers_def kernel_bound_n_def assign_def get_assignee_var_name_def)
  have "check_for_multiple_writes_to_loop_bounds ?K0 \<noteq> Inr ()"
    using single_writer_check[OF d0 l0] w0 by (simp add: ddb)
  then have c: "\<exists>e. check_for_multiple_writes_to_loop_bounds ?K0 = Inl e"
    by (cases "check_for_multiple_writes_to_loop_bounds ?K0") auto
  from a b c show ?thesis by blast
qed

section \<open>Temporaries declared in instructions\<close>

lemma assignee_indices_loop_ok:
  "\<forall>x\<in>set idx. plain_iname knl x \<Longrightarrow>
   assignee_indices_loop (all_inames knl) nm idx = Inr (map (the \<circ> variable_name) idx)"
  by (induction idx) (auto simp: plain_iname_def split: option.splits)

lemma assignee_indices_loop_bad:
  "\<exists>x\<in>set idx. \<not> plain_iname knl x \<Longrightarrow>
   assignee_indices_loop (all_inames knl) nm idx = Inl (OnlyPlainInames nm)"
  by (induction idx) (auto simp: plain_iname_def split: option.splits sum.splits)

lemma create_temporary_undeclared:
  "temp_var_type insn = None \<Longrightarrow>
   create_temporary find_shape knl insn temps = Inr (clear_temp_var_type insn, temps)"
  by (simp add: create_temporary_def clear_temp_var_type_def)

lemma create_temporary_declared:
  assumes "temp_var_type insn = Some declared"
    and "get_assignee_var_name insn = Inr nm"
    and "get_assignee_indices insn = Inr idx"
  shows "create_temporary find_shape knl insn temps =
     (if \<exists>x\<in>set idx. \<not> plain_iname knl x then Inl (OnlyPlainInames nm)
      else (case find_shape knl (map (the \<circ> variable_name) idx) of
              Inl e \<Rightarrow> Inl e
            | Inr (base_indices, shape) \<Rightarrow>
                if nm \<in> fst ` set temps then Inl (TempAlreadyExists nm)
                else if nm \<in> dom (arg_dict knl) then Inl (TempAlreadyExistsAsArg nm)
                else Inr (clear_temp_var_type insn,
                          AList.update nm
                            \<lparr>tv_name = nm, tv_dtype = declared, tv_is_local = None,
                             tv_base_indices = base_indices, tv_shape = shape\<rparr> temps)))"
proof (cases "\<exists>x\<in>set idx. \<not> plain_iname knl x")
  case True
  then show ?thesis
    using assms by (simp add: create_temporary_def assignee_indices_loop_bad)
next
  case False
  then have "\<forall>x\<in>set idx. plain_iname knl x" by simp
  then show ?thesis
    using assms False
    by (simp add: create_temporary_def assignee_indices_loop_ok clear_temp_var_type_def
          split: sum.splits prod.splits)
qed

text \<open>What a successful run of the loop establishes, from any accumulator.\<close>

lemma create_temporaries_loop_success:
  assumes "create_temporaries_loop find_shape knl insns (ins0, temps0) = Inr (ins', temps')"
  shows "ins' = ins0 @ map clear_temp_var_type insns
       \<and> (\<forall>n tv. map_of temps0 n = Some tv \<longrightarrow> map_of temps' n = Some tv)
       \<and> (\<forall>insn\<in>set insns. \<forall>declared nm idx.
             temp_var_type insn = Some declared \<and> get_assignee_var_name insn = Inr nm
               \<and> get_assignee_indices insn = Inr idx
             \<longrightarrow> (\<forall>x\<in>set idx. plain_iname knl x)
                 \<and> nm \<notin> fst ` set temps0 \<and> nm \<notin> dom (arg_dict knl)
                 \<and> (\<exists>base_indices shape.
                       find_shape knl (map (the \<circ> variable_name) idx) = Inr (base_indices, shape)
                       \<and> map_of temps' nm
                           = Some \<lparr>tv_name = nm, tv_dtype = declared, tv_is_local = None,
                                   tv_base_indices = base_indices, tv_shape = shape\<rparr>))"
  using assms
proof (induction insns arbitrary: ins0 temps0)
  case Nil
  then show ?case by simp
next
  case (Cons insn rest)
  from Cons.prems obtain insn1 temps1 where
    step: "create_temporary find_shape knl insn temps0 = Inr (insn1, temps1)"
    and run: "create_temporaries_loop find_shape knl rest (ins0 @ [insn1], temps1) = Inr (ins', temps')"
    by (auto split: sum.splits)
  note ih = Cons.IH[OF run]
  show ?case
  proof (cases "temp_var_type insn")
    case None
    with step have eq: "insn1 = clear_temp_var_type insn" "temps1 = temps0"
      by (simp_all add: create_temporary_undeclared)
    show ?thesis using ih None unfolding eq by auto
  next
    case (Some declared)
    from step Some obtain nm where nm: "get_assignee_var_name insn = Inr nm"
      by (auto simp: create_temporary_def split: sum.splits)
    from step Some nm obtain idx where idx: "get_assignee_indices insn = Inr idx"
      by (auto simp: create_temporary_def split: sum.splits)
    note ct = create_temporary_declared[OF Some nm idx, of find_shape knl temps0]
    from step have plain: "\<forall>x\<in>set idx. plain_iname knl x"
      unfolding ct by (auto split: if_splits)
    from step plain obtain b s where
      fs: "find_shape knl (map (the \<circ> variable_name) idx) = Inr (b, s)"
      unfolding ct by (auto split: if_splits sum.splits)
    let ?tv = "\<lparr>tv_name = nm, tv_dtype = declared, tv_is_local = None,
                 tv_base_indices = b, tv_shape = s\<rparr>"
    from step plain fs have fresh: "nm \<notin> fst ` set temps0" "nm \<notin> dom (arg_dict knl)"
      and eq: "insn1 = clear_temp_var_type insn" "temps1 = AList.update nm ?tv temps0"
      unfolding ct by (auto split: if_splits)
    have m1: "map_of temps1 = (map_of temps0)(nm \<mapsto> ?tv)"
      unfolding eq by (rule update_conv')
    have none0: "map_of temps0 nm = None"
      using fresh(1) by (simp add: map_of_eq_None_iff)
    have dom1: "fst ` set temps0 \<subseteq> fst ` set temps1"
      unfolding eq by (auto simp: dom_update[unfolded dom_map_of_conv_image_fst]
                                  dom_map_of_conv_image_fst[symmetric] update_conv')
    have a: "ins' = ins0 @ map clear_temp_var_type (insn # rest)"
      using ih eq by simp
    have b: "\<forall>n tv. map_of temps0 n = Some tv \<longrightarrow> map_of temps' n = Some tv"
    proof (intro allI impI)
      fix n tv assume h: "map_of temps0 n = Some tv"
      then have "n \<noteq> nm" using none0 by auto
      then have "map_of temps1 n = Some tv" using h by (simp add: m1)
      then show "map_of temps' n = Some tv" using ih by blast
    qed
    have here: "map_of temps' nm = Some ?tv"
      using ih m1 by simp
    have c: "\<forall>i\<in>set (insn # rest). \<forall>declared nm idx.
             temp_var_type i = Some declared \<and> get_assignee_var_name i = Inr nm
               \<and> get_assignee_indices i = Inr idx
             \<longrightarrow> (\<forall>x\<in>set idx. plain_iname knl x)
                 \<and> nm \<notin> fst ` set temps0 \<and> nm \<notin> dom (arg_dict knl)
                 \<and> (\<exists>base_indices shape.
                       find_shape knl (map (the \<circ> variable_name) idx) = Inr (base_indices, shape)
                       \<and> map_of temps' nm
                           = Some \<lparr>tv_name = nm, tv_dtype = declared, tv_is_local = None,
                                   tv_base_indices = base_indices, tv_shape = shape\<rparr>)"
    proof (intro ballI allI impI)
      fix i d n ix
      assume i: "i \<in> set (insn # rest)"
        and h: "temp_var_type i = Some d \<and> get_assignee_var_name i = Inr n
               \<and> get_assignee_indices i = Inr ix"
      show "(\<forall>x\<in>set ix. plain_iname knl x)
                 \<and> n \<notin> fst ` set temps0 \<and> n \<notin> dom (arg_dict knl)
                 \<and> (\<exists>base_indices shape.
                       find_shape knl (map (the \<circ> variable_name) ix) = Inr (base_indices, shape)
                       \<and> map_of temps' n
                           = Some \<lparr>tv_name = n, tv_dtype = d, tv_is_local = None,
                                   tv_base_indices = base_indices, tv_shape = shape\<rparr>)"
      proof (cases "i = insn")
        case True
        with h Some nm idx have "d = declared" "n = nm" "ix = idx" by simp_all
        then show ?thesis using plain fresh fs here by blast
      next
        case False
        with i have "i \<in> set rest" by simp
        with ih h have r: "(\<forall>x\<in>set ix. plain_iname knl x)
                 \<and> n \<notin> fst ` set temps1 \<and> n \<notin> dom (arg_dict knl)
                 \<and> (\<exists>base_indices shape.
                       find_shape knl (map (the \<circ> variable_name) ix) = Inr (base_indices, shape)
                       \<and> map_of temps' n
                           = Some \<lparr>tv_name = n, tv_dtype = d, tv_is_local = None,
                                   tv_base_indices = base_indices, tv_shape = shape\<rparr>)"
          by blast
        then show ?thesis using dom1 by blast
      qed
    qed
    from a b c show ?thesis by blast
  qed
qed

lemma declared_names_iff:
  "n \<in> set (declared_names insns) \<longleftrightarrow>
     (\<exists>insn\<in>set insns. \<exists>declared. temp_var_type insn = Some declared
        \<and> get_assignee_var_name insn = Inr n)"
proof (induction insns)
  case Nil
  then show ?case by (simp add: declared_names_def)
next
  case (Cons insn rest)
  have dn: "declared_names (insn # rest)
      = (case temp_var_type insn of None \<Rightarrow> []
         | Some declared \<Rightarrow> (case get_assignee_var_name insn of Inl e \<Rightarrow> [] | Inr n \<Rightarrow> [n]))
        @ declared_names rest"
    by (simp add: declared_names_def)
  show ?case
  proof (cases "temp_var_type insn")
    case None
    then show ?thesis using Cons.IH dn by auto
  next
    case (Some declared)
    then show ?thesis using Cons.IH dn
      by (cases "get_assignee_var_name insn") auto
  qed
qed

lemma create_temporaries_loop_total:
  assumes "\<forall>insn\<in>set insns. declaration_ok find_shape knl insn"
    and "distinct (declared_names insns)"
    and "set (declared_names insns) \<inter> fst ` set temps0 = {}"
  shows "\<exists>r. create_temporaries_loop find_shape knl insns (ins0, temps0) = Inr r"
  using assms
proof (induction insns arbitrary: ins0 temps0)
  case Nil
  then show ?case by simp
next
  case (Cons insn rest)
  have ok_rest: "\<forall>i\<in>set rest. declaration_ok find_shape knl i"
    using Cons.prems(1) by simp
  show ?case
  proof (cases "temp_var_type insn")
    case None
    then have dn: "declared_names (insn # rest) = declared_names rest"
      by (simp add: declared_names_def)
    from Cons.IH[OF ok_rest, of temps0 "ins0 @ [clear_temp_var_type insn]"] Cons.prems(2,3) dn
    obtain r where
      "create_temporaries_loop find_shape knl rest (ins0 @ [clear_temp_var_type insn], temps0) = Inr r"
      by auto
    then show ?thesis
      using None by (simp add: create_temporary_undeclared)
  next
    case (Some declared)
    from Cons.prems(1) have ok: "declaration_ok find_shape knl insn" by simp
    from ok Some obtain nm where nm: "get_assignee_var_name insn = Inr nm"
      by (auto simp: declaration_ok_def split: sum.splits)
    from ok Some nm obtain idx where idx: "get_assignee_indices insn = Inr idx"
      by (auto simp: declaration_ok_def split: sum.splits)
    from ok Some nm idx have plain: "\<forall>x\<in>set idx. plain_iname knl x"
      and nofail: "\<not> isl (find_shape knl (map (the \<circ> variable_name) idx))"
      and noarg: "nm \<notin> dom (arg_dict knl)"
      by (auto simp: declaration_ok_def list_all_iff)
    from nofail obtain b s where
      fs: "find_shape knl (map (the \<circ> variable_name) idx) = Inr (b, s)"
      by (cases "find_shape knl (map (the \<circ> variable_name) idx)") auto
    have dn: "declared_names (insn # rest) = nm # declared_names rest"
      using Some nm by (simp add: declared_names_def)
    have fresh: "nm \<notin> fst ` set temps0"
      using Cons.prems(3) dn by auto
    let ?tv = "\<lparr>tv_name = nm, tv_dtype = declared, tv_is_local = None,
                 tv_base_indices = b, tv_shape = s\<rparr>"
    let ?temps1 = "AList.update nm ?tv temps0"
    have step: "create_temporary find_shape knl insn temps0
                 = Inr (clear_temp_var_type insn, ?temps1)"
      using create_temporary_declared[OF Some nm idx, of find_shape knl temps0]
        plain fs fresh noarg by simp
    have "fst ` set ?temps1 = insert nm (fst ` set temps0)"
      using dom_update[of nm ?tv temps0]
      by (simp add: dom_map_of_conv_image_fst)
    then have disj: "set (declared_names rest) \<inter> fst ` set ?temps1 = {}"
      using Cons.prems(2,3) dn by auto
    have dist: "distinct (declared_names rest)"
      using Cons.prems(2) dn by simp
    from Cons.IH[OF ok_rest dist disj, of "ins0 @ [clear_temp_var_type insn]"]
    show ?thesis using step by simp
  qed
qed

text \<open>
  C6. For an instruction that carries a declared type: when an index of its left-hand
  side is not a plain iname of the kernel, or its assignee is a temporary or an argument
  of the kernel, the pass raises. When the pass returns, every instruction is returned with
  its declared type cleared, the temporaries of the kernel are kept, and each declared
  assignee is a new temporary with the declared type and the inferred base indices and
  shape. The pass does return when every declaration passes the checks, the shape
  inference succeeds and no two instructions declare the same name (a second declaration
  of a name finds the temporary the first one made).
\<close>

theorem create_temporaries_declared_types:
  "(\<forall>insn\<in>set (instructions knl). \<forall>declared nm idx.
      temp_var_type insn = Some declared \<and> get_assignee_var_name insn = Inr nm
        \<and> get_assignee_indices insn = Inr idx
        \<and> ((\<exists>x\<in>set idx. \<not> plain_iname knl x)
            \<or> nm \<in> fst ` set (temporary_variables knl) \<or> nm \<in> dom (arg_dict knl))
      \<longrightarrow> (\<exists>e. create_temporaries find_shape knl = Inl e))
   \<and> (\<forall>knl'. create_temporaries find_shape knl = Inr knl' \<longrightarrow>
         instructions knl' = map clear_temp_var_type (instructions knl)
         \<and> (\<forall>n tv. map_of (temporary_variables knl) n = Some tv
               \<longrightarrow> map_of (temporary_variables knl') n = Some tv)
         \<and> (\<forall>insn\<in>set (instructions knl). \<forall>declared nm idx.
               temp_var_type insn = Some declared \<and> get_assignee_var_name insn = Inr nm
                 \<and> get_assignee_indices insn = Inr idx
               \<longrightarrow> (\<exists>base_indices shape.
                      find_shape knl (map (the \<circ> variable_name) idx) = Inr (base_indices, shape)
                      \<and> map_of (temporary_variables knl') nm
                          = Some \<lparr>tv_name = nm, tv_dtype = declared, tv_is_local = None,
                                  tv_base_indices = base_indices, tv_shape = shape\<rparr>)))
   \<and> ((\<forall>insn\<in>set (instructions knl). declaration_ok find_shape knl insn)
        \<and> distinct (declared_names (instructions knl))
      \<longrightarrow> (\<exists>knl'. create_temporaries find_shape knl = Inr knl'))"
proof -
  let ?run = "create_temporaries_loop find_shape knl (instructions knl)
                ([], temporary_variables knl)"
  have res: "\<exists>ins' temps'. ?run = Inr (ins', temps')
                 \<and> knl' = knl\<lparr>instructions := ins', temporary_variables := temps'\<rparr>"
    if "create_temporaries find_shape knl = Inr knl'" for knl'
    using that by (auto simp: create_temporaries_def split: sum.splits)
  have part2: "instructions knl' = map clear_temp_var_type (instructions knl)
         \<and> (\<forall>n tv. map_of (temporary_variables knl) n = Some tv
               \<longrightarrow> map_of (temporary_variables knl') n = Some tv)
         \<and> (\<forall>insn\<in>set (instructions knl). \<forall>declared nm idx.
               temp_var_type insn = Some declared \<and> get_assignee_var_name insn = Inr nm
                 \<and> get_assignee_indices insn = Inr idx
               \<longrightarrow> (\<forall>x\<in>set idx. plain_iname knl x)
                 \<and> nm \<notin> fst ` set (temporary_variables knl) \<and> nm \<notin> dom (arg_dict knl)
                 \<and> (\<exists>base_indices shape.
                      find_shape knl (map (the \<circ> variable_name) idx) = Inr (base_indices, shape)
                      \<and> map_of (temporary_variables knl') nm
                          = Some \<lparr>tv_name = nm, tv_dtype = declared, tv_is_local = None,
                                  tv_base_indices = base_indices, tv_shape = shape\<rparr>))"
    if "create_temporaries find_shape knl = Inr knl'" for knl'
  proof -
    from res[OF that] obtain ins' temps' where
      r: "?run = Inr (ins', temps')"
      and k: "knl' = knl\<lparr>instructions := ins', temporary_variables := temps'\<rparr>"
      by blast
    from create_temporaries_loop_success[OF r] show ?thesis
      unfolding k by simp
  qed
  have part1: "\<exists>e. create_temporaries find_shape knl = Inl e"
    if "insn \<in> set (instructions knl)"
      and "temp_var_type insn = Some declared \<and> get_assignee_var_name insn = Inr nm
        \<and> get_assignee_indices insn = Inr idx
        \<and> ((\<exists>x\<in>set idx. \<not> plain_iname knl x)
            \<or> nm \<in> fst ` set (temporary_variables knl) \<or> nm \<in> dom (arg_dict knl))"
    for insn declared nm idx
  proof (cases "create_temporaries find_shape knl")
    case (Inl e)
    then show ?thesis by blast
  next
    case (Inr knl')
    from part2[OF Inr] that have False by blast
    then show ?thesis ..
  qed
  have part3: "\<exists>knl'. create_temporaries find_shape knl = Inr knl'"
    if "\<forall>insn\<in>set (instructions knl). declaration_ok find_shape knl insn"
      and "distinct (declared_names (instructions knl))"
  proof -
    have "set (declared_names (instructions knl)) \<inter> fst ` set (temporary_variables knl) = {}"
    proof -
      have "n \<notin> fst ` set (temporary_variables knl)"
        if n: "n \<in> set (declared_names (instructions knl))" for n
      proof -
        from n obtain insn declared where
          i: "insn \<in> set (instructions knl)" "temp_var_type insn = Some declared"
            "get_assignee_var_name insn = Inr n"
          unfolding declared_names_iff by blast
        from \<open>\<forall>insn\<in>set (instructions knl). declaration_ok find_shape knl insn\<close> i(1)
        have "declaration_ok find_shape knl insn" by blast
        then show ?thesis using i(2,3)
          by (auto simp: declaration_ok_def split: sum.splits)
      qed
      then show ?thesis by blast
    qed
    from create_temporaries_loop_total[OF that(1,2) this, of "[]"]
    show ?thesis
      by (auto simp: create_temporaries_def)
  qed
  have c1: "\<forall>insn\<in>set (instructions knl). \<forall>declared nm idx.
      temp_var_type insn = Some declared \<and> get_assignee_var_name insn = Inr nm
        \<and> get_assignee_indices insn = Inr idx
        \<and> ((\<exists>x\<in>set idx. \<not> plain_iname knl x)
            \<or> nm \<in> fst ` set (temporary_variables knl) \<or> nm \<in> dom (arg_dict knl))
      \<longrightarrow> (\<exists>e. create_temporaries find_shape knl = Inl e)"
    using part1 by (intro ballI allI impI)
  have c2: "\<forall>knl'. create_temporaries find_shape knl = Inr knl' \<longrightarrow>
         instructions knl' = map clear_temp_var_type (instructions knl)
         \<and> (\<forall>n tv. map_of (temporary_variables knl) n = Some tv
               \<longrightarrow> map_of (temporary_variables knl') n = Some tv)
         \<and> (\<forall>insn\<in>set (instructions knl). \<forall>declared nm idx.
               temp_var_type insn = Some declared \<and> get_assignee_var_name insn = Inr nm
                 \<and> get_assignee_indices insn = Inr idx
               \<longrightarrow> (\<exists>base_indices shape.
                      find_shape knl (map (the \<circ> variable_name) idx) = Inr (base_indices, shape)
                      \<and> map_of (temporary_variables knl') nm
                          = Some \<lparr>tv_name = nm, tv_dtype = declared, tv_is_local = None,
                                  tv_base_indices = base_indices, tv_shape = shape\<rparr>))"
  proof (intro allI impI)
    fix knl' assume "create_temporaries find_shape knl = Inr knl'"
    from part2[OF this] show "instructions knl' = map clear_temp_var_type (instructions knl)
         \<and> (\<forall>n tv. map_of (temporary_variables knl) n = Some tv
               \<longrightarrow> map_of (temporary_variables knl') n = Some tv)
         \<and> (\<forall>insn\<in>set (instructions knl). \<forall>declared nm idx.
               temp_var_type insn = Some declared \<and> get_assignee_var_name insn = Inr nm
                 \<and> get_assignee_indices insn = Inr idx
               \<longrightarrow> (\<exists>base_indices shape.
                      find_shape knl (map (the \<circ> variable_name) idx) = Inr (base_indices, shape)
                      \<and> map_of (temporary_variables knl') nm
                          = Some \<lparr>tv_name = nm, tv_dtype = declared, tv_is_local = None,
                                  tv_base_indices = base_indices, tv_shape = shape\<rparr>))"
      by (intro conjI) (simp, simp, meson)
  qed
  have c3: "(\<forall>insn\<in>set (instructions knl). declaration_ok find_shape knl insn)
        \<and> distinct (declared_names (instructions knl))
      \<longrightarrow> (\<exists>knl'. create_temporaries find_shape knl = Inr knl')"
    using part3 by simp
  show ?thesis
    by (rule conjI[OF c1 conjI[OF c2 c3]])
qed


theorem create_temporaries_declared_types_witness:
  "(\<exists>knl'. create_temporaries shape_n (kernel_declared_tmp (Variable ''i'')) = Inr knl'
       \<and> instructions knl'
           = map clear_temp_var_type (instructions (kernel_declared_tmp (Variable ''i'')))
       \<and> map_of (temporary_variables knl') ''tmp''
           = Some \<lparr>tv_name = ''tmp'', tv_dtype = DType ''float64'', tv_is_local = None,
                   tv_base_indices = [Constant 0], tv_shape = [Variable ''n'']\<rparr>)
   \<and> (\<exists>e. create_temporaries shape_n
             (kernel_declared_tmp (Sum [Variable ''i'', Constant 1])) = Inl e)
   \<and> (\<exists>e. create_temporaries shape_n
             ((kernel_declared_tmp (Variable ''i''))\<lparr>args := [GlobalArg ''tmp'']\<rparr>) = Inl e)"
proof -
  let ?K = "kernel_declared_tmp (Variable ''i'')"
  let ?B = "kernel_declared_tmp (Sum [Variable ''i'', Constant 1])"
  let ?A = "(kernel_declared_tmp (Variable ''i''))\<lparr>args := [GlobalArg ''tmp'']\<rparr>"
  let ?d = "(assign ''insn_0'' (Subscript (Variable ''tmp'') [Variable ''i''])
            (Sum [Subscript (Variable ''a'') [Variable ''i''], Constant 1]))
           \<lparr>temp_var_type := Some (DType ''float64'')\<rparr>"
  have inames: "\<And>e. all_inames (kernel_declared_tmp e) = {''i''}"
    by (auto simp: all_inames_def kernel_declared_tmp_def)
  have ok: "\<forall>insn\<in>set (instructions ?K). declaration_ok shape_n ?K insn"
    unfolding declaration_ok_def plain_iname_def inames
    by (simp add: kernel_declared_tmp_def assign_def get_assignee_var_name_def
          get_assignee_indices_def shape_n_def arg_dict_def dom_def)
  have dist: "distinct (declared_names (instructions ?K))"
    by (simp add: declared_names_def kernel_declared_tmp_def assign_def
          get_assignee_var_name_def)
  from create_temporaries_declared_types[of ?K shape_n] ok dist
  obtain knl' where run: "create_temporaries shape_n ?K = Inr knl'"
    by blast
  have din: "?d \<in> set (instructions ?K)"
    by (simp add: kernel_declared_tmp_def)
  have dfacts: "temp_var_type ?d = Some (DType ''float64'')
      \<and> get_assignee_var_name ?d = Inr ''tmp''
      \<and> get_assignee_indices ?d = Inr [Variable ''i'']"
    by (simp add: assign_def get_assignee_var_name_def get_assignee_indices_def)
  from create_temporaries_declared_types[of ?K shape_n] run
  have r2: "instructions knl' = map clear_temp_var_type (instructions ?K)"
    and r3: "\<forall>insn\<in>set (instructions ?K). \<forall>declared nm idx.
               temp_var_type insn = Some declared \<and> get_assignee_var_name insn = Inr nm
                 \<and> get_assignee_indices insn = Inr idx
               \<longrightarrow> (\<exists>base_indices shape.
                      shape_n ?K (map (the \<circ> variable_name) idx) = Inr (base_indices, shape)
                      \<and> map_of (temporary_variables knl') nm
                          = Some \<lparr>tv_name = nm, tv_dtype = declared, tv_is_local = None,
                                  tv_base_indices = base_indices, tv_shape = shape\<rparr>)"
    by blast+
  from r3 din dfacts obtain b s where
    bs: "shape_n ?K (map (the \<circ> variable_name) [Variable ''i'']) = Inr (b, s)"
      "map_of (temporary_variables knl') ''tmp''
         = Some \<lparr>tv_name = ''tmp'', tv_dtype = DType ''float64'', tv_is_local = None,
                 tv_base_indices = b, tv_shape = s\<rparr>"
    by blast
  from bs(1) have "b = [Constant 0]" "s = [Variable ''n'']"
    by (simp_all add: shape_n_def)
  with bs(2) run r2 have a: "\<exists>knl'. create_temporaries shape_n ?K = Inr knl'
       \<and> instructions knl' = map clear_temp_var_type (instructions ?K)
       \<and> map_of (temporary_variables knl') ''tmp''
           = Some \<lparr>tv_name = ''tmp'', tv_dtype = DType ''float64'', tv_is_local = None,
                   tv_base_indices = [Constant 0], tv_shape = [Variable ''n'']\<rparr>"
    by simp
  let ?db = "(assign ''insn_0'' (Subscript (Variable ''tmp'') [Sum [Variable ''i'', Constant 1]])
            (Sum [Subscript (Variable ''a'') [Variable ''i''], Constant 1]))
           \<lparr>temp_var_type := Some (DType ''float64'')\<rparr>"
  have "?db \<in> set (instructions ?B)"
    by (simp add: kernel_declared_tmp_def)
  moreover have "temp_var_type ?db = Some (DType ''float64'')
      \<and> get_assignee_var_name ?db = Inr ''tmp''
      \<and> get_assignee_indices ?db = Inr [Sum [Variable ''i'', Constant 1]]
      \<and> ((\<exists>x\<in>set [Sum [Variable ''i'', Constant 1]]. \<not> plain_iname ?B x)
           \<or> ''tmp'' \<in> fst ` set (temporary_variables ?B) \<or> ''tmp'' \<in> dom (arg_dict ?B))"
    by (simp add: assign_def get_assignee_var_name_def get_assignee_indices_def plain_iname_def)
  ultimately have b: "\<exists>e. create_temporaries shape_n ?B = Inl e"
    using create_temporaries_declared_types[of ?B shape_n] by blast
  have "?d \<in> set (instructions ?A)"
    by (simp add: kernel_declared_tmp_def)
  moreover have "temp_var_type ?d = Some (DType ''float64'')
      \<and> get_assignee_var_name ?d = Inr ''tmp''
      \<and> get_assignee_indices ?d = Inr [Variable ''i'']
      \<and> ((\<exists>x\<in>set [Variable ''i'']. \<not> plain_iname ?A x)
           \<or> ''tmp'' \<in> fst ` set (temporary_variables ?A) \<or> ''tmp'' \<in> dom (arg_dict ?A))"
    by (simp add: assign_def get_assignee_var_name_def get_assignee_indices_def arg_dict_def
          dom_def)
  ultimately have c: "\<exists>e. create_temporaries shape_n ?A = Inl e"
    using create_temporaries_declared_types[of ?A shape_n] by blast
  from a b c show ?thesis by blast
qed

section \<open>Common subexpressions share one temporary\<close>

lemma first_cse_None:
  "first_cse e = None \<longleftrightarrow> cse_children e = []"
  "first_cse_list es = None \<longleftrightarrow> (\<forall>e\<in>set es. cse_children e = [])"
  by (induction e and es rule: first_cse_first_cse_list.induct) (auto split: option.splits)

lemma replace_cse_free: "cse_children e = [] \<Longrightarrow> replace_cse var e = e"
  by (induction e) (auto simp: map_idI)





lemma map_replace_cse_first_None:
  "first_cse_list es = None \<Longrightarrow> map (replace_cse var) es = es"
  by (simp add: first_cse_None replace_cse_free map_idI)















section \<open>Domains are parsed from left to right\<close>

lemma iname_loop_success:
  "iname_loop i dims (used, avail) = Inr (used', avail') \<Longrightarrow>
     None \<notin> set dims \<and> distinct dims \<and> (\<forall>n. Some n \<in> set dims \<longrightarrow> n \<notin> used)
     \<and> used' = used \<union> {n. Some n \<in> set dims} \<and> avail' = avail \<union> {n. Some n \<in> set dims}"
proof (induction dims arbitrary: i used avail)
  case Nil
  then show ?case by simp
next
  case (Cons d dims)
  from Cons.prems obtain n where n: "d = Some n" "n \<notin> used"
    and run: "iname_loop (Suc i) dims (insert n used, insert n avail) = Inr (used', avail')"
    by (auto split: option.splits if_splits)
  from Cons.IH[OF run] show ?case using n by auto
qed

lemma iname_loop_redefines:
  assumes "None \<notin> set dims"
    and "(\<exists>n. Some n \<in> set dims \<and> n \<in> used) \<or> \<not> distinct dims"
  shows "\<exists>n. Some n \<in> set dims \<and> iname_loop i dims (used, avail) = Inl (RedefinesIname n)"
  using assms
proof (induction dims arbitrary: i used avail)
  case Nil
  then show ?case by simp
next
  case (Cons d dims)
  from Cons.prems(1) obtain n where n: "d = Some n" and rest: "None \<notin> set dims"
    by (cases d) auto
  show ?case
  proof (cases "n \<in> used")
    case True
    then show ?thesis using n by auto
  next
    case False
    have "(\<exists>m. Some m \<in> set dims \<and> m \<in> insert n used) \<or> \<not> distinct dims"
      using Cons.prems(2) n False by auto
    from Cons.IH[OF rest this, of "Suc i" "insert n avail"]
    show ?thesis using n False by auto
  qed
qed

lemma inames_of_append: "inames_of (xs @ ys) = inames_of xs \<union> inames_of ys"
  by (auto simp: inames_of_def)

lemma inames_of_single: "inames_of [s] = {n. Some n \<in> set (set_dim_names s)}"
  by (auto simp: inames_of_def)

lemma parse_domains_loop_inv:
  assumes "parse_domains_loop Q P R defines doms (res0, avail0, used0) = Inr (res, avail, used)"
  shows "\<exists>new. res = res0 @ new \<and> length new = length doms
          \<and> avail = avail0 \<union> inames_of new \<and> used = used0 \<union> inames_of new
          \<and> (\<forall>d\<in>set new. None \<notin> set (set_dim_names d))
          \<and> distinct (concat (map set_dim_names new))
          \<and> inames_of new \<inter> used0 = {}
          \<and> (\<forall>k<length doms.
                resolve_domain Q P R defines (avail0 \<union> inames_of (take k new)) (doms ! k)
                  = Inr (new ! k))"
  using assms
proof (induction doms arbitrary: res0 avail0 used0)
  case Nil
  then show ?case by (simp add: inames_of_def)
next
  case (Cons domn rest)
  from Cons.prems obtain s used1 avail1 where
    rs: "resolve_domain Q P R defines avail0 domn = Inr s"
    and il: "iname_loop 0 (set_dim_names s) (used0, avail0) = Inr (used1, avail1)"
    and run: "parse_domains_loop Q P R defines rest (res0 @ [s], avail1, used1) = Inr (res, avail, used)"
    by (auto split: sum.splits)
  from iname_loop_success[OF il] have
    s1: "None \<notin> set (set_dim_names s)" "distinct (set_dim_names s)"
      "\<forall>n. Some n \<in> set (set_dim_names s) \<longrightarrow> n \<notin> used0"
      "used1 = used0 \<union> inames_of [s]" "avail1 = avail0 \<union> inames_of [s]"
    by (simp_all add: inames_of_single)
  from Cons.IH[OF run] obtain new where
    n: "res = (res0 @ [s]) @ new" "length new = length rest"
      "avail = avail1 \<union> inames_of new" "used = used1 \<union> inames_of new"
      "\<forall>d\<in>set new. None \<notin> set (set_dim_names d)"
      "distinct (concat (map set_dim_names new))"
      "inames_of new \<inter> used1 = {}"
      "\<forall>k<length rest.
          resolve_domain Q P R defines (avail1 \<union> inames_of (take k new)) (rest ! k) = Inr (new ! k)"
    by blast
  let ?new = "s # new"
  have a: "res = res0 @ ?new" using n(1) by simp
  have b: "length ?new = length (domn # rest)" using n(2) by simp
  have c: "avail = avail0 \<union> inames_of ?new" "used = used0 \<union> inames_of ?new"
    using n(3,4) s1(4,5) inames_of_append[of "[s]" new] by auto
  have d: "\<forall>d\<in>set ?new. None \<notin> set (set_dim_names d)"
    using n(5) s1(1) by simp
  have disj: "set (set_dim_names s) \<inter> set (concat (map set_dim_names new)) = {}"
  proof (rule ccontr)
    assume "set (set_dim_names s) \<inter> set (concat (map set_dim_names new)) \<noteq> {}"
    then obtain x where x: "x \<in> set (set_dim_names s)" "x \<in> set (concat (map set_dim_names new))"
      by blast
    with s1(1) obtain m where "x = Some m" by (cases x) auto
    with x have "m \<in> inames_of new" "m \<in> used1"
      using s1(4) by (auto simp: inames_of_def)
    with n(7) show False by blast
  qed
  have e: "distinct (concat (map set_dim_names ?new))"
    using n(6) s1(2) disj by simp
  have f: "inames_of ?new \<inter> used0 = {}"
    using n(7) s1(3,4) inames_of_append[of "[s]" new] by (auto simp: inames_of_single)
  have g: "\<forall>k<length (domn # rest).
        resolve_domain Q P R defines (avail0 \<union> inames_of (take k ?new)) ((domn # rest) ! k)
          = Inr (?new ! k)"
  proof (intro allI impI)
    fix k assume k: "k < length (domn # rest)"
    show "resolve_domain Q P R defines (avail0 \<union> inames_of (take k ?new)) ((domn # rest) ! k)
          = Inr (?new ! k)"
    proof (cases k)
      case 0
      then show ?thesis using rs by (simp add: inames_of_def)
    next
      case (Suc j)
      then have j: "j < length rest" using k by simp
      have "avail0 \<union> inames_of (take k ?new) = avail1 \<union> inames_of (take j new)"
        using Suc s1(5) inames_of_append[of "[s]" "take j new"] by auto
      then show ?thesis using n(8) j Suc by simp
    qed
  qed
  from a b c d e f g show ?case by blast
qed

lemma parse_domains_loop_append:
  "parse_domains_loop Q P R defines (xs @ ys) st
     = (case parse_domains_loop Q P R defines xs st of
          Inl e \<Rightarrow> Inl e
        | Inr st' \<Rightarrow> parse_domains_loop Q P R defines ys st')"
proof (induction xs arbitrary: st)
  case Nil
  then show ?case by simp
next
  case (Cons x xs)
  obtain r a u where st: "st = (r, a, u)" by (cases st)
  show ?case unfolding st using Cons.IH
    by (auto split: sum.splits)
qed


lemma iname_loop_total:
  "None \<notin> set dims \<Longrightarrow> distinct dims \<Longrightarrow> \<forall>n. Some n \<in> set dims \<longrightarrow> n \<notin> used \<Longrightarrow>
   iname_loop i dims (used, avail)
     = Inr (used \<union> {n. Some n \<in> set dims}, avail \<union> {n. Some n \<in> set dims})"
proof (induction dims arbitrary: i used avail)
  case Nil
  then show ?case by simp
next
  case (Cons d dims)
  from Cons.prems(1) obtain n where n: "d = Some n" and rest: "None \<notin> set dims"
    by (cases d) auto
  have fresh: "n \<notin> used" using Cons.prems(3) n by simp
  have dist: "distinct dims" and notin: "Some n \<notin> set dims"
    using Cons.prems(2) n by simp_all
  have "\<forall>m. Some m \<in> set dims \<longrightarrow> m \<notin> insert n used"
    using Cons.prems(3) notin by auto
  from Cons.IH[OF rest dist this, of "Suc i" "insert n avail"]
  have "iname_loop (Suc i) dims (insert n used, insert n avail)
      = Inr (insert n used \<union> {m. Some m \<in> set dims}, insert n avail \<union> {m. Some m \<in> set dims})" .
  moreover have "insert n used \<union> {m. Some m \<in> set dims} = used \<union> {m. Some m \<in> set (d # dims)}"
    and "insert n avail \<union> {m. Some m \<in> set dims} = avail \<union> {m. Some m \<in> set (d # dims)}"
    using n by auto
  ultimately show ?case using n fresh by simp
qed

lemma parse_domains_loop_total:
  assumes "length new = length doms"
    and "\<forall>k<length doms.
           resolve_domain Q P R defines (avail0 \<union> inames_of (take k new)) (doms ! k) = Inr (new ! k)"
    and "\<forall>d\<in>set new. None \<notin> set (set_dim_names d)"
    and "distinct (concat (map set_dim_names new))"
    and "inames_of new \<inter> used0 = {}"
  shows "parse_domains_loop Q P R defines doms (res0, avail0, used0)
           = Inr (res0 @ new, avail0 \<union> inames_of new, used0 \<union> inames_of new)"
  using assms
proof (induction doms arbitrary: new res0 avail0 used0)
  case Nil
  then show ?case by (simp add: inames_of_def)
next
  case (Cons domn rest)
  from Cons.prems(1) obtain s new' where new: "new = s # new'" and len: "length new' = length rest"
    by (cases new) auto
  have "0 < length (domn # rest)" by simp
  with Cons.prems(2) have
    "resolve_domain Q P R defines (avail0 \<union> inames_of (take 0 new)) ((domn # rest) ! 0) = Inr (new ! 0)"
    by blast
  then have rs: "resolve_domain Q P R defines avail0 domn = Inr s"
    using new by (simp add: inames_of_def)
  have named: "None \<notin> set (set_dim_names s)" and named': "\<forall>d\<in>set new'. None \<notin> set (set_dim_names d)"
    using Cons.prems(3) new by simp_all
  have dist: "distinct (set_dim_names s)" and dist': "distinct (concat (map set_dim_names new'))"
    and disj: "set (set_dim_names s) \<inter> set (concat (map set_dim_names new')) = {}"
    using Cons.prems(4) new by simp_all
  have fresh: "\<forall>n. Some n \<in> set (set_dim_names s) \<longrightarrow> n \<notin> used0"
    using Cons.prems(5) new by (auto simp: inames_of_def)
  let ?used1 = "used0 \<union> inames_of [s]" and ?avail1 = "avail0 \<union> inames_of [s]"
  have il: "iname_loop 0 (set_dim_names s) (used0, avail0) = Inr (?used1, ?avail1)"
    using iname_loop_total[OF named dist fresh, of 0 avail0] by (simp add: inames_of_single)
  have shift: "\<forall>k<length rest.
      resolve_domain Q P R defines (?avail1 \<union> inames_of (take k new')) (rest ! k) = Inr (new' ! k)"
  proof (intro allI impI)
    fix k assume "k < length rest"
    then have "Suc k < length (domn # rest)" by simp
    with Cons.prems(2) have
      "resolve_domain Q P R defines (avail0 \<union> inames_of (take (Suc k) new)) ((domn # rest) ! Suc k)
         = Inr (new ! Suc k)" by blast
    moreover have "avail0 \<union> inames_of (take (Suc k) new) = ?avail1 \<union> inames_of (take k new')"
      using new inames_of_append[of "[s]" "take k new'"] by auto
    ultimately show
      "resolve_domain Q P R defines (?avail1 \<union> inames_of (take k new')) (rest ! k) = Inr (new' ! k)"
      using new by simp
  qed
  have sep: "inames_of new' \<inter> ?used1 = {}"
    using Cons.prems(5) disj new by (auto simp: inames_of_def)
  from Cons.IH[OF len shift named' dist' sep, of "res0 @ [s]"]
  have "parse_domains_loop Q P R defines rest (res0 @ [s], ?avail1, ?used1)
      = Inr ((res0 @ [s]) @ new', ?avail1 \<union> inames_of new', ?used1 \<union> inames_of new')" .
  moreover have "?avail1 \<union> inames_of new' = avail0 \<union> inames_of new"
    and "?used1 \<union> inames_of new' = used0 \<union> inames_of new"
    using new inames_of_append[of "[s]" new'] by auto
  ultimately show ?case using rs il new by simp
qed

text \<open>
  C5, as the code has it. The list of domains parses, with a given result, exactly when
  the result has one set per domain, in order, the domain at position \<open>k\<close> resolves to
  the set at position \<open>k\<close> with the available parameters being the arguments and
  variables together with the inames of the sets before it, every dimension is named and
  no name occurs twice. When a domain resolves to a set with all dimensions named, one
  of which is an iname of the sets before it, parsing fails with the redefinition error
  for a dimension of that set. A set that is built already resolves to itself, whatever
  its parameters. A text that expands to one text is handed to the reader as it is when
  it starts with a parameter list, and otherwise behind the list of those of its
  identifiers that are available, in the order of the set; what the reader accepts is
  accepted. The function never looks at the parameters of a set: a reference from an
  earlier domain to the iname of a later one is left to the reader of domain texts.
\<close>

theorem parse_domains_visibility:
  "(parse_domains Q P R args_and_vars ds defines = Inr result \<longleftrightarrow>
       length result = length ds
     \<and> (\<forall>k<length ds.
           resolve_domain Q P R defines (args_and_vars \<union> inames_of (take k result)) (ds ! k)
             = Inr (result ! k))
     \<and> (\<forall>d\<in>set result. None \<notin> set (set_dim_names d))
     \<and> distinct (concat (map set_dim_names result)))
   \<and> (\<forall>pre d post res_pre s.
        ds = pre @ d # post \<and> parse_domains Q P R args_and_vars pre defines = Inr res_pre
        \<and> resolve_domain Q P R defines (args_and_vars \<union> inames_of res_pre) d = Inr s
        \<and> None \<notin> set (set_dim_names s) \<and> inames_of [s] \<inter> inames_of res_pre \<noteq> {}
        \<longrightarrow> (\<exists>n\<in>inames_of [s].
               parse_domains Q P R args_and_vars ds defines = Inl (RedefinesIname n)))
   \<and> (\<forall>avail s. resolve_domain Q P R defines avail (DomainSet s) = Inr s)
   \<and> (\<forall>avail text text'. expand_defines P text defines True = Inr [text'] \<longrightarrow>
        resolve_domain Q P R defines avail (DomainStr text)
          = R (if take 1 (lstrip text') \<noteq> ''[''
               then ''['' @ join '','' (Q (filter (\<lambda>ident. ident \<in> avail) (gather_identifiers text')))
                      @ ''] -> '' @ text'
               else text'))"
proof -
  have loop: "\<exists>avail used. parse_domains_loop Q P R defines xs ([], args_and_vars, {})
                 = Inr (result, avail, used)"
    if "parse_domains Q P R args_and_vars xs defines = Inr result" for xs result
    using that by (auto simp: parse_domains_def split: sum.splits)
  have part1: "length result = length ds
     \<and> (\<forall>k<length ds.
           resolve_domain Q P R defines (args_and_vars \<union> inames_of (take k result)) (ds ! k)
             = Inr (result ! k))
     \<and> (\<forall>d\<in>set result. None \<notin> set (set_dim_names d))
     \<and> distinct (concat (map set_dim_names result))"
    if "parse_domains Q P R args_and_vars ds defines = Inr result"
  proof -
    from loop[OF that] obtain avail used where
      "parse_domains_loop Q P R defines ds ([], args_and_vars, {}) = Inr (result, avail, used)"
      by blast
    from parse_domains_loop_inv[OF this] show ?thesis by auto
  qed
  have part1': "parse_domains Q P R args_and_vars ds defines = Inr result"
    if h: "length result = length ds
     \<and> (\<forall>k<length ds.
           resolve_domain Q P R defines (args_and_vars \<union> inames_of (take k result)) (ds ! k)
             = Inr (result ! k))
     \<and> (\<forall>d\<in>set result. None \<notin> set (set_dim_names d))
     \<and> distinct (concat (map set_dim_names result))"
  proof -
    from h have h1: "length result = length ds"
      and h2: "\<forall>k<length ds.
           resolve_domain Q P R defines (args_and_vars \<union> inames_of (take k result)) (ds ! k)
             = Inr (result ! k)"
      and h3: "\<forall>d\<in>set result. None \<notin> set (set_dim_names d)"
      and h4: "distinct (concat (map set_dim_names result))"
      by simp_all
    have h5: "inames_of result \<inter> {} = {}" by simp
    from parse_domains_loop_total[OF h1 h2 h3 h4 h5, of "[]"]
    show ?thesis by (simp add: parse_domains_def)
  qed
  have part2: "\<exists>n\<in>inames_of [s]. parse_domains Q P R args_and_vars ds defines = Inl (RedefinesIname n)"
    if h: "ds = pre @ d # post \<and> parse_domains Q P R args_and_vars pre defines = Inr res_pre
        \<and> resolve_domain Q P R defines (args_and_vars \<union> inames_of res_pre) d = Inr s
        \<and> None \<notin> set (set_dim_names s) \<and> inames_of [s] \<inter> inames_of res_pre \<noteq> {}"
    for pre d post res_pre s
  proof -
    from h loop[of pre res_pre] obtain avail used where
      l: "parse_domains_loop Q P R defines pre ([], args_and_vars, {}) = Inr (res_pre, avail, used)"
      by blast
    from parse_domains_loop_inv[OF l] have
      au: "avail = args_and_vars \<union> inames_of res_pre" "used = inames_of res_pre"
      by auto
    from h have "\<exists>n. Some n \<in> set (set_dim_names s) \<and> n \<in> used"
      unfolding au by (auto simp: inames_of_single)
    then have "(\<exists>n. Some n \<in> set (set_dim_names s) \<and> n \<in> used) \<or> \<not> distinct (set_dim_names s)"
      by blast
    from iname_loop_redefines[OF _ this, of 0 avail] h obtain n where
      n: "Some n \<in> set (set_dim_names s)"
        "iname_loop 0 (set_dim_names s) (used, avail) = Inl (RedefinesIname n)"
      by blast
    have rs: "resolve_domain Q P R defines avail d = Inr s"
      using h au by simp
    have "parse_domains_loop Q P R defines ds ([], args_and_vars, {}) = Inl (RedefinesIname n)"
      using h l rs n(2) by (simp add: parse_domains_loop_append)
    then have "parse_domains Q P R args_and_vars ds defines = Inl (RedefinesIname n)"
      by (simp add: parse_domains_def)
    with n(1) show ?thesis by (auto simp: inames_of_single)
  qed
  have c1: "parse_domains Q P R args_and_vars ds defines = Inr result \<longleftrightarrow>
       length result = length ds
     \<and> (\<forall>k<length ds.
           resolve_domain Q P R defines (args_and_vars \<union> inames_of (take k result)) (ds ! k)
             = Inr (result ! k))
     \<and> (\<forall>d\<in>set result. None \<notin> set (set_dim_names d))
     \<and> distinct (concat (map set_dim_names result))"
    using part1 part1' by (rule iffI)
  have c2: "\<forall>pre d post res_pre s.
        ds = pre @ d # post \<and> parse_domains Q P R args_and_vars pre defines = Inr res_pre
        \<and> resolve_domain Q P R defines (args_and_vars \<union> inames_of res_pre) d = Inr s
        \<and> None \<notin> set (set_dim_names s) \<and> inames_of [s] \<inter> inames_of res_pre \<noteq> {}
        \<longrightarrow> (\<exists>n\<in>inames_of [s].
               parse_domains Q P R args_and_vars ds defines = Inl (RedefinesIname n))"
    using part2 by (intro allI impI)
  have c3: "\<forall>avail s. resolve_domain Q P R defines avail (DomainSet s) = Inr s"
    by (simp add: resolve_domain_def)
  have c4: "\<forall>avail text text'. expand_defines P text defines True = Inr [text'] \<longrightarrow>
        resolve_domain Q P R defines avail (DomainStr text)
          = R (if take 1 (lstrip text') \<noteq> ''[''
               then ''['' @ join '','' (Q (filter (\<lambda>ident. ident \<in> avail) (gather_identifiers text')))
                      @ ''] -> '' @ text'
               else text')"
    by (simp add: resolve_domain_def with_parameters_def synthesized_parameters_def)
  show ?thesis
    by (rule conjI[OF c1 conjI[OF c2 conjI[OF c3 c4]]])
qed

theorem parse_domains_visibility_witness:
  "parse_domains (\<lambda>names. names) no_template read_two_sets {''n''}
       [DomainStr ''{[i]: 0<=i<n}'', DomainStr ''{[j]: 0<=j<i}''] Map.empty
     = Inr [set_i, set_j]
   \<and> resolve_domain (\<lambda>names. names) no_template read_two_sets Map.empty
       ({''n''} \<union> inames_of [set_i]) (DomainStr ''{[j]: 0<=j<i}'')
     = read_two_sets ''[i] -> {[j]: 0<=j<i}''
   \<and> parse_domains (\<lambda>names. names) no_template read_two_sets {''n''}
       [DomainStr ''{[i]: 0<=i<n}'', DomainStr ''{[j]: 0<=j<i}'', DomainSet set_i] Map.empty
     = Inl (RedefinesIname ''i'')
   \<and> parse_domains (\<lambda>names. names) no_template read_two_sets {''n''}
       [DomainStr ''{[i]: 0<=i<j}'', DomainStr ''{[j]: 0<=j<n}''] Map.empty
     = Inl (DomainParseError ''[] -> {[i]: 0<=i<j}'')"
proof -
  let ?Q = "\<lambda>names::string list. names"
  let ?ds = "[DomainStr ''{[i]: 0<=i<n}'', DomainStr ''{[j]: 0<=j<i}'']"
  note vis = parse_domains_visibility[of ?Q no_template read_two_sets "{''n''}" _ Map.empty]
  have e1: "expand_defines no_template ''{[i]: 0<=i<n}'' Map.empty True = Inr [''{[i]: 0<=i<n}'']"
    and e2: "expand_defines no_template ''{[j]: 0<=j<i}'' Map.empty True = Inr [''{[j]: 0<=j<i}'']"
    by (simp_all add: expand_defines_def replacements_of_def BRACE_RE_finditer_def
        WORD_RE_finditer_def brace_match_def is_word_char_def)
  have inm: "inames_of [set_i] = {''i''}" and inm0: "inames_of [] = {}"
    by (auto simp: set_i_def inames_of_def)
  from vis[of ?ds "[set_i, set_j]"] e1
  have "resolve_domain ?Q no_template read_two_sets Map.empty {''n''} (DomainStr ''{[i]: 0<=i<n}'')
      = read_two_sets (if take 1 (lstrip ''{[i]: 0<=i<n}'') \<noteq> ''[''
           then ''['' @ join '','' (?Q (filter (\<lambda>ident. ident \<in> {''n''})
                                        (gather_identifiers ''{[i]: 0<=i<n}'')))
                  @ ''] -> '' @ ''{[i]: 0<=i<n}''
           else ''{[i]: 0<=i<n}'')"
    by blast
  then have r1: "resolve_domain ?Q no_template read_two_sets Map.empty {''n''}
      (DomainStr ''{[i]: 0<=i<n}'') = Inr set_i"
    by (simp add: gather_identifiers_def lstrip_def is_space_def is_digit_char_def
        is_word_char_def read_two_sets_def)
  from vis[of ?ds "[set_i, set_j]"] e2
  have "resolve_domain ?Q no_template read_two_sets Map.empty ({''n''} \<union> inames_of [set_i])
        (DomainStr ''{[j]: 0<=j<i}'')
      = read_two_sets (if take 1 (lstrip ''{[j]: 0<=j<i}'') \<noteq> ''[''
           then ''['' @ join '','' (?Q (filter (\<lambda>ident. ident \<in> {''n''} \<union> inames_of [set_i])
                                        (gather_identifiers ''{[j]: 0<=j<i}'')))
                  @ ''] -> '' @ ''{[j]: 0<=j<i}''
           else ''{[j]: 0<=j<i}'')"
    by blast
  then have r2: "resolve_domain ?Q no_template read_two_sets Map.empty ({''n''} \<union> inames_of [set_i])
        (DomainStr ''{[j]: 0<=j<i}'') = read_two_sets ''[i] -> {[j]: 0<=j<i}''"
    by (simp add: inm gather_identifiers_def lstrip_def is_space_def is_digit_char_def
        is_word_char_def)
  have r2': "read_two_sets ''[i] -> {[j]: 0<=j<i}'' = Inr set_j"
    by (simp add: read_two_sets_def)
  have all: "\<forall>k<length ?ds.
       resolve_domain ?Q no_template read_two_sets Map.empty
         ({''n''} \<union> inames_of (take k [set_i, set_j])) (?ds ! k) = Inr ([set_i, set_j] ! k)"
  proof (intro allI impI)
    fix k assume "k < length ?ds"
    then have "k = 0 \<or> k = 1" by auto
    then show "resolve_domain ?Q no_template read_two_sets Map.empty
         ({''n''} \<union> inames_of (take k [set_i, set_j])) (?ds ! k) = Inr ([set_i, set_j] ! k)"
      using r1 r2 r2' by (auto simp: inm0)
  qed
  have named: "\<forall>d\<in>set [set_i, set_j]. None \<notin> set (set_dim_names d)"
    and dist: "distinct (concat (map set_dim_names [set_i, set_j]))"
    by (simp_all add: set_i_def set_j_def)
  from vis[of ?ds "[set_i, set_j]"] all named dist
  have p: "parse_domains ?Q no_template read_two_sets {''n''} ?ds Map.empty = Inr [set_i, set_j]"
    by simp
  have ne: "None \<notin> set (set_dim_names set_i)"
    and cl: "inames_of [set_i] \<inter> inames_of [set_i, set_j] \<noteq> {}"
    by (auto simp: set_i_def inames_of_def)
  from vis[of "?ds @ DomainSet set_i # []" "[]"]
  have rs: "resolve_domain ?Q no_template read_two_sets Map.empty
              ({''n''} \<union> inames_of [set_i, set_j]) (DomainSet set_i) = Inr set_i"
    by blast
  from vis[of "?ds @ DomainSet set_i # []" "[]"] p rs ne cl
  have "\<exists>n\<in>inames_of [set_i]. parse_domains ?Q no_template read_two_sets {''n''}
          (?ds @ DomainSet set_i # []) Map.empty = Inl (RedefinesIname n)"
    by blast
  then have b: "parse_domains ?Q no_template read_two_sets {''n''}
       [DomainStr ''{[i]: 0<=i<n}'', DomainStr ''{[j]: 0<=j<i}'', DomainSet set_i] Map.empty
     = Inl (RedefinesIname ''i'')"
    by (simp add: inm)
  have c: "parse_domains ?Q no_template read_two_sets {''n''}
       [DomainStr ''{[i]: 0<=i<j}'', DomainStr ''{[j]: 0<=j<n}''] Map.empty
     = Inl (DomainParseError ''[] -> {[i]: 0<=i<j}'')"
    by (simp add: parse_domains_def resolve_domain_def expand_defines_def replacements_of_def
        BRACE_RE_finditer_def WORD_RE_finditer_def brace_match_def is_word_char_def
        with_parameters_def synthesized_parameters_def gather_identifiers_def lstrip_def
        is_space_def is_digit_char_def read_two_sets_def)
  show ?thesis by (rule conjI[OF p conjI[OF r2 conjI[OF b c]]])
qed

text \<open>
  C5 as it is stated fails in its last part: a set that is built already and has the
  parameter \<open>j\<close> is accepted in front of the set that introduces the iname \<open>j\<close>.
\<close>

theorem parse_domains_later_iname_counterexample:
  "\<forall>Q P R. parse_domains Q P R {''n''} [DomainSet set_i_below_j, DomainSet set_j_below_n] Map.empty
           = Inr [set_i_below_j, set_j_below_n]
         \<and> ''j'' \<in> set (param_dim_names set_i_below_j)
         \<and> Some ''j'' \<in> set (set_dim_names set_j_below_n)"
  by (simp add: parse_domains_def resolve_domain_def set_i_below_j_def set_j_below_n_def)

section \<open>Bracketed substitutions come before bare ones\<close>

lemma choices_Cons:
  "choices mk defines (word # rest) =
     (case defines word of
        None \<Rightarrow> []
      | Some (Value v) \<Rightarrow> [[(mk word, v)]]
      | Some (ValueList subvals) \<Rightarrow> [map (\<lambda>subval. (mk word, subval)) subvals])
     @ choices mk defines rest"
  by (simp add: choices_def)

lemma append_snoc_fun: "(@) (rep @ [x]) = (\<lambda>c. rep @ x # c)"
  by (rule ext) simp

lemma fork_one:
  "concat (map (\<lambda>subval. map (\<lambda>c. (rep @ [f subval]) @ c) PL) vs)
     = map (\<lambda>c. rep @ c) (concat (map (\<lambda>subval. map (Cons (f subval)) PL) vs))"
  by (induction vs) simp_all

lemma fork_all:
  "concat (map (\<lambda>rep1. map (\<lambda>c. rep1 @ c) PL)
             (concat (map (\<lambda>rep. map (\<lambda>subval. rep @ [f subval]) vs) reps)))
     = concat (map (\<lambda>rep. map (\<lambda>c. rep @ c)
                 (concat (map (\<lambda>x. map (Cons x) PL) (map f vs)))) reps)"
proof (induction reps)
  case Nil
  then show ?case by simp
next
  case (Cons rep reps)
  have "concat (map (\<lambda>rep1. map (\<lambda>c. rep1 @ c) PL) (map (\<lambda>subval. rep @ [f subval]) vs))
          = map (\<lambda>c. rep @ c) (concat (map (\<lambda>x. map (Cons x) PL) (map f vs)))"
    using fork_one[of rep f PL vs] by (simp add: o_def append_snoc_fun)
  then show ?case using Cons.IH by simp
qed

lemma add_replacements_eq:
  "add_replacements mk defines sv ws reps =
     (case first_list_valued defines ws of
        Some w \<Rightarrow>
          if sv then Inl (MultiValuedNotAllowed w)
          else Inr (concat (map (\<lambda>rep. map (\<lambda>c. rep @ c) (product_lists (choices mk defines ws))) reps))
      | None \<Rightarrow>
          Inr (concat (map (\<lambda>rep. map (\<lambda>c. rep @ c) (product_lists (choices mk defines ws))) reps)))"
proof (induction ws arbitrary: reps)
  case Nil
  then show ?case by (simp add: first_list_valued_def choices_def)
next
  case (Cons word rest)
  show ?case
  proof (cases "defines word")
    case None
    then show ?thesis
      using Cons.IH[of reps]
      by (simp add: first_list_valued_def list_valued_def choices_Cons split: option.splits)
  next
    case (Some val)
    show ?thesis
    proof (cases val)
      case (Value v)
      have "concat (map (\<lambda>rep1. map (\<lambda>c. rep1 @ c) (product_lists (choices mk defines rest)))
                (map (\<lambda>rep. rep @ [(mk word, v)]) reps))
            = concat (map (\<lambda>rep. map (\<lambda>c. rep @ c)
                 (product_lists ([(mk word, v)] # choices mk defines rest))) reps)"
        by (simp add: o_def append_snoc_fun)
      then show ?thesis
        using Some Value Cons.IH[of "map (\<lambda>rep. rep @ [(mk word, v)]) reps"]
        by (simp add: first_list_valued_def list_valued_def choices_Cons split: option.splits)
    next
      case (ValueList vs)
      have lv: "first_list_valued defines (word # rest) = Some word"
        using Some ValueList by (simp add: first_list_valued_def list_valued_def)
      show ?thesis
      proof (cases sv)
        case True
        then show ?thesis using Some ValueList lv by simp
      next
        case False
        let ?reps1 = "concat (map (\<lambda>rep. map (\<lambda>subval. rep @ [(mk word, subval)]) vs) reps)"
        have run: "add_replacements mk defines sv (word # rest) reps
                     = add_replacements mk defines sv rest ?reps1"
          using Some ValueList False by simp
        have ih: "add_replacements mk defines sv rest ?reps1
            = Inr (concat (map (\<lambda>rep. map (\<lambda>c. rep @ c) (product_lists (choices mk defines rest)))
                     ?reps1))"
          using Cons.IH[of ?reps1] False by (simp split: option.splits)
        have "concat (map (\<lambda>rep. map (\<lambda>c. rep @ c) (product_lists (choices mk defines rest))) ?reps1)
            = concat (map (\<lambda>rep. map (\<lambda>c. rep @ c)
                 (product_lists (map (\<lambda>subval. (mk word, subval)) vs # choices mk defines rest)))
                 reps)"
          using fork_all[of "product_lists (choices mk defines rest)" "\<lambda>subval. (mk word, subval)" vs reps]
          by simp
        then show ?thesis
          using run ih lv False Some ValueList by (simp add: choices_Cons)
      qed
    qed
  qed
qed

lemma find_append:
  "List.find P (xs @ ys) = (case List.find P xs of Some x \<Rightarrow> Some x | None \<Rightarrow> List.find P ys)"
  by (induction xs) auto

lemma replacements_of_eq:
  "replacements_of insn defines sv =
     (case first_list_valued defines (BRACE_RE_finditer insn @ WORD_RE_finditer insn) of
        Some w \<Rightarrow> if sv then Inl (MultiValuedNotAllowed w) else Inr (all_replacements insn defines)
      | None \<Rightarrow> Inr (all_replacements insn defines))"
proof -
  let ?B = "product_lists (choices BracePat defines (BRACE_RE_finditer insn))"
  let ?W = "product_lists (choices WordPat defines (WORD_RE_finditer insn))"
  have all: "concat (map (\<lambda>rep. map (\<lambda>c. rep @ c) ?W) ?B) = all_replacements insn defines"
    by (simp add: all_replacements_def List.product_concat_map map_concat o_def)
  show ?thesis
    unfolding replacements_of_def add_replacements_eq first_list_valued_def find_append
    using all by (simp add: o_def split: option.splits)
qed

lemma re_sub_literal:
  "CHR 0x5C \<notin> set v \<Longrightarrow> re_sub P pat v s = Inr (substitute pat v s)"
  by (simp add: re_sub_def compile_repl_def)

lemma apply_replacements_literal:
  "\<forall>x\<in>set rep. CHR 0x5C \<notin> set (snd x) \<Longrightarrow>
   apply_replacements P rep s = Inr (foldl (\<lambda>s x. substitute (fst x) (snd x) s) s rep)"
  by (induction rep arbitrary: s) (auto simp: re_sub_literal)

lemma yield_all_literal:
  "\<forall>rep\<in>set reps. \<forall>x\<in>set rep. CHR 0x5C \<notin> set (snd x) \<Longrightarrow>
   yield_all P insn reps
     = Inr (map (\<lambda>rep. foldl (\<lambda>s x. substitute (fst x) (snd x) s) insn rep) reps)"
  by (induction reps) (simp_all add: apply_replacements_literal)

lemma apply_replacements_snoc:
  "apply_replacements P (rep @ [(pat, v)]) s
     = (case apply_replacements P rep s of Inl e \<Rightarrow> Inl e | Inr s' \<Rightarrow> re_sub P pat v s')"
  by (induction rep arbitrary: s) (auto split: sum.splits)


lemma yield_all_iff:
  "yield_all P insn reps = Inr out \<longleftrightarrow>
     length out = length reps
     \<and> (\<forall>k<length reps. apply_replacements P (reps ! k) insn = Inr (out ! k))"
proof (induction reps arbitrary: out)
  case Nil
  then show ?case by auto
next
  case (Cons rep rest)
  show ?case
  proof
    assume "yield_all P insn (rep # rest) = Inr out"
    then obtain v vs where
      v: "apply_replacements P rep insn = Inr v" "yield_all P insn rest = Inr vs" "out = v # vs"
      by (auto split: sum.splits)
    from v(2) Cons.IH[of vs] show "length out = length (rep # rest)
        \<and> (\<forall>k<length (rep # rest). apply_replacements P ((rep # rest) ! k) insn = Inr (out ! k))"
      using v(1,3) by (auto simp: nth_Cons split: nat.splits)
  next
    assume a: "length out = length (rep # rest)
        \<and> (\<forall>k<length (rep # rest). apply_replacements P ((rep # rest) ! k) insn = Inr (out ! k))"
    then obtain v vs where out: "out = v # vs" by (cases out) auto
    from a out have len: "length vs = length rest" by simp
    from a out have h: "apply_replacements P rep insn = Inr v" by auto
    have "\<forall>k<length rest. apply_replacements P (rest ! k) insn = Inr (vs ! k)"
    proof (intro allI impI)
      fix k assume "k < length rest"
      then have "Suc k < length (rep # rest)" by simp
      with a have "apply_replacements P ((rep # rest) ! Suc k) insn = Inr (out ! Suc k)" by blast
      then show "apply_replacements P (rest ! k) insn = Inr (vs ! k)" using out by simp
    qed
    with len Cons.IH[of vs] have "yield_all P insn rest = Inr vs" by blast
    with h out show "yield_all P insn (rep # rest) = Inr out" by simp
  qed
qed

lemma choices_cases:
  "ys \<in> set (choices mk defines ws) \<Longrightarrow>
     \<exists>w\<in>set ws. (\<exists>val. defines w = Some (Value val) \<and> ys = [(mk w, val)])
        \<or> (\<exists>vals. defines w = Some (ValueList vals) \<and> ys = map (\<lambda>subval. (mk w, subval)) vals)"
proof -
  assume "ys \<in> set (choices mk defines ws)"
  then obtain w where w: "w \<in> set ws"
    "ys \<in> set (case defines w of
                  None \<Rightarrow> []
                | Some (Value v) \<Rightarrow> [[(mk w, v)]]
                | Some (ValueList subvals) \<Rightarrow> [map (\<lambda>subval. (mk w, subval)) subvals])"
    by (auto simp: choices_def)
  show ?thesis
  proof (cases "defines w")
    case None
    with w(2) show ?thesis by simp
  next
    case (Some val)
    show ?thesis
    proof (cases val)
      case (Value v)
      with Some w show ?thesis by (intro bexI[of _ w]) simp_all
    next
      case (ValueList vs)
      with Some w show ?thesis by (intro bexI[of _ w]) simp_all
    qed
  qed
qed

lemma choices_values:
  assumes "ys \<in> set (choices mk defines ws)" and "x \<in> set ys"
  shows "(\<exists>w. defines w = Some (Value (snd x)))
     \<or> (\<exists>w vs. defines w = Some (ValueList vs) \<and> snd x \<in> set vs)"
proof -
  from choices_cases[OF assms(1)] obtain w where
    w: "(\<exists>val. defines w = Some (Value val) \<and> ys = [(mk w, val)])
        \<or> (\<exists>vals. defines w = Some (ValueList vals) \<and> ys = map (\<lambda>subval. (mk w, subval)) vals)"
    by blast
  then show ?thesis
  proof
    assume "\<exists>val. defines w = Some (Value val) \<and> ys = [(mk w, val)]"
    with assms(2) show ?thesis by auto
  next
    assume "\<exists>vals. defines w = Some (ValueList vals) \<and> ys = map (\<lambda>subval. (mk w, subval)) vals"
    with assms(2) show ?thesis by auto
  qed
qed

lemma product_lists_values:
  assumes "rep \<in> set (product_lists (choices mk defines ws))" and "x \<in> set rep"
  shows "(\<exists>w. defines w = Some (Value (snd x)))
     \<or> (\<exists>w vs. defines w = Some (ValueList vs) \<and> snd x \<in> set vs)"
proof -
  from assms(1) have l: "list_all2 (\<lambda>x ys. x \<in> set ys) rep (choices mk defines ws)"
    by (simp add: product_lists_set)
  from assms(2) obtain k where k: "k < length rep" "rep ! k = x"
    by (auto simp: in_set_conv_nth)
  from l k have "x \<in> set (choices mk defines ws ! k)" "k < length (choices mk defines ws)"
    by (auto simp: list_all2_conv_all_nth)
  then have "choices mk defines ws ! k \<in> set (choices mk defines ws)"
    and "x \<in> set (choices mk defines ws ! k)" by simp_all
  then show ?thesis by (rule choices_values)
qed

lemma all_replacements_values:
  assumes "rep \<in> set (all_replacements insn defines)" and "x \<in> set rep"
  shows "(\<exists>w. defines w = Some (Value (snd x)))
     \<or> (\<exists>w vs. defines w = Some (ValueList vs) \<and> snd x \<in> set vs)"
proof -
  from assms(1) obtain bs ws where
    r: "rep = bs @ ws"
       "bs \<in> set (product_lists (choices BracePat defines (BRACE_RE_finditer insn)))"
       "ws \<in> set (product_lists (choices WordPat defines (WORD_RE_finditer insn)))"
    by (auto simp: all_replacements_def)
  from assms(2) r(1) have "x \<in> set bs \<or> x \<in> set ws" by simp
  then show ?thesis
    using product_lists_values[OF r(2)] product_lists_values[OF r(3)] by blast
qed

text \<open>
  C7, as the code has it. The tuples of replacements are exactly \<open>all_replacements\<close>:
  one replacement for every match of \<^verbatim>\<open>BRACE_RE\<close> whose name is defined, in text order,
  followed by one for every match of \<^verbatim>\<open>WORD_RE\<close> whose name is defined, both read from
  the text as given (in single-valued mode the first list-valued match raises instead).
  A tuple is applied from left to right, each replacement by \<^verbatim>\<open>re.sub\<close> over the whole
  current text, the values inserted before it included; the generator yields one text
  for each tuple. When no value holds a backslash every substitution succeeds, and the
  expansions are the tuples folded over the text with \<open>substitute\<close>.
\<close>

theorem expand_defines_bracketed_before_bare:
  "replacements_of insn defines sv =
     (case first_list_valued defines (BRACE_RE_finditer insn @ WORD_RE_finditer insn) of
        Some w \<Rightarrow> if sv then Inl (MultiValuedNotAllowed w) else Inr (all_replacements insn defines)
      | None \<Rightarrow> Inr (all_replacements insn defines))
   \<and> apply_replacements P [] s = Inr s
   \<and> apply_replacements P (rep @ [(pat, v)]) s
       = (case apply_replacements P rep s of Inl e \<Rightarrow> Inl e | Inr s' \<Rightarrow> re_sub P pat v s')
   \<and> (expand_defines P insn defines sv = Inr out \<longleftrightarrow>
        (\<exists>reps. replacements_of insn defines sv = Inr reps
           \<and> length out = length reps
           \<and> (\<forall>k<length reps. apply_replacements P (reps ! k) insn = Inr (out ! k))))
   \<and> ((\<forall>w val. defines w = Some (Value val) \<longrightarrow> CHR 0x5C \<notin> set val)
        \<and> (\<forall>w vals. defines w = Some (ValueList vals) \<longrightarrow> (\<forall>val\<in>set vals. CHR 0x5C \<notin> set val))
      \<longrightarrow> expand_defines P insn defines sv
            = (case replacements_of insn defines sv of
                 Inl e \<Rightarrow> Inl e
               | Inr reps \<Rightarrow>
                   Inr (map (\<lambda>rep. foldl (\<lambda>s x. substitute (fst x) (snd x) s) insn rep) reps)))"
proof -
  have c1: "replacements_of insn defines sv =
     (case first_list_valued defines (BRACE_RE_finditer insn @ WORD_RE_finditer insn) of
        Some w \<Rightarrow> if sv then Inl (MultiValuedNotAllowed w) else Inr (all_replacements insn defines)
      | None \<Rightarrow> Inr (all_replacements insn defines))"
    by (rule replacements_of_eq)
  have c2: "apply_replacements P [] s = Inr s" by simp
  have c3: "apply_replacements P (rep @ [(pat, v)]) s
       = (case apply_replacements P rep s of Inl e \<Rightarrow> Inl e | Inr s' \<Rightarrow> re_sub P pat v s')"
    by (rule apply_replacements_snoc)
  have c4: "expand_defines P insn defines sv = Inr out \<longleftrightarrow>
        (\<exists>reps. replacements_of insn defines sv = Inr reps
           \<and> length out = length reps
           \<and> (\<forall>k<length reps. apply_replacements P (reps ! k) insn = Inr (out ! k)))"
    by (cases "replacements_of insn defines sv") (simp_all add: expand_defines_def yield_all_iff)
  have c5: "expand_defines P insn defines sv
            = (case replacements_of insn defines sv of
                 Inl e \<Rightarrow> Inl e
               | Inr reps \<Rightarrow>
                   Inr (map (\<lambda>rep. foldl (\<lambda>s x. substitute (fst x) (snd x) s) insn rep) reps))"
    if h: "(\<forall>w val. defines w = Some (Value val) \<longrightarrow> CHR 0x5C \<notin> set val)
        \<and> (\<forall>w vals. defines w = Some (ValueList vals) \<longrightarrow> (\<forall>val\<in>set vals. CHR 0x5C \<notin> set val))"
  proof (cases "replacements_of insn defines sv")
    case (Inl e)
    then show ?thesis by (simp add: expand_defines_def)
  next
    case (Inr reps)
    with c1 have reps: "reps = all_replacements insn defines"
      by (auto split: option.splits if_splits)
    have "\<forall>rep\<in>set reps. \<forall>x\<in>set rep. CHR 0x5C \<notin> set (snd x)"
    proof (intro ballI)
      fix rep x assume "rep \<in> set reps" "x \<in> set rep"
      then have "rep \<in> set (all_replacements insn defines)" "x \<in> set rep"
        using reps by simp_all
      then have "(\<exists>w. defines w = Some (Value (snd x)))
         \<or> (\<exists>w vs. defines w = Some (ValueList vs) \<and> snd x \<in> set vs)"
        by (rule all_replacements_values)
      with h show "CHR 0x5C \<notin> set (snd x)" by blast
    qed
    from yield_all_literal[OF this] Inr show ?thesis by (simp add: expand_defines_def)
  qed
  show ?thesis
    by (rule conjI[OF c1 conjI[OF c2 conjI[OF c3 conjI[OF c4 impI[OF c5]]]]])
qed


lemmas expand_defines_eval =
  expand_defines_def replacements_of_def BRACE_RE_finditer_def WORD_RE_finditer_def
  brace_match_def is_word_char_def re_sub_def compile_repl_def

theorem expand_defines_bracketed_before_bare_witness:
  "replacements_of ''${a} b'' [''a'' \<mapsto> Value ''1'', ''b'' \<mapsto> Value ''${a}''] True
     = Inr [[(BracePat ''a'', ''1''), (WordPat ''a'', ''1''), (WordPat ''b'', ''${a}'')]]
   \<and> expand_defines no_template ''${a} b'' [''a'' \<mapsto> Value ''1'', ''b'' \<mapsto> Value ''${a}''] True
     = Inr [''1 ${a}'']"
proof -
  let ?D = "[''a'' \<mapsto> Value ''1'', ''b'' \<mapsto> Value ''${a}'']"
  let ?rep = "[(BracePat ''a'', ''1''), (WordPat ''a'', ''1''), (WordPat ''b'', ''${a}'')]"
  note c7 = expand_defines_bracketed_before_bare[of "''${a} b''" ?D True no_template]
  have f: "first_list_valued ?D (BRACE_RE_finditer ''${a} b'' @ WORD_RE_finditer ''${a} b'') = None"
    by (simp add: first_list_valued_def list_valued_def BRACE_RE_finditer_def
        WORD_RE_finditer_def brace_match_def is_word_char_def)
  have a: "all_replacements ''${a} b'' ?D = [?rep]"
    by (simp add: all_replacements_def choices_def BRACE_RE_finditer_def
        WORD_RE_finditer_def brace_match_def is_word_char_def)
  have h: "(\<forall>w val. ?D w = Some (Value val) \<longrightarrow> CHR 0x5C \<notin> set val)
        \<and> (\<forall>w vals. ?D w = Some (ValueList vals) \<longrightarrow> (\<forall>val\<in>set vals. CHR 0x5C \<notin> set val))"
    by auto
  from c7 f a have r: "replacements_of ''${a} b'' ?D True = Inr [?rep]" by simp
  from c7 h have "expand_defines no_template ''${a} b'' ?D True
      = (case replacements_of ''${a} b'' ?D True of
           Inl e \<Rightarrow> Inl e
         | Inr reps \<Rightarrow>
             Inr (map (\<lambda>rep. foldl (\<lambda>s x. substitute (fst x) (snd x) s) ''${a} b'' rep) reps))"
    by blast
  with r have "expand_defines no_template ''${a} b'' ?D True = Inr [''1 ${a}'']"
    by (simp add: is_word_char_def)
  with r show ?thesis by simp
qed

text \<open>
  C7 as it is stated fails in its second part: with \<open>a\<close> defined as \<^verbatim>\<open>${b}\<close> and
  \<open>b\<close> as \<open>X\<close>, the text \<^verbatim>\<open>${a} ${b}\<close> expands to \<open>X X\<close> (the value of \<open>a\<close> is
  expanded again by the substitution for \<^verbatim>\<open>${b}\<close>), and \<open>a b\<close> to \<^verbatim>\<open>${X} X\<close>.
\<close>

theorem expand_defines_value_reinterpreted_counterexample:
  "\<forall>P. expand_defines P ''${a} ${b}'' [''a'' \<mapsto> Value ''${b}'', ''b'' \<mapsto> Value ''X''] True
         = Inr [''X X'']
       \<and> expand_defines P ''a b'' [''a'' \<mapsto> Value ''${b}'', ''b'' \<mapsto> Value ''X''] True
         = Inr [''${X} X'']"
  by (simp add: expand_defines_eval)

text \<open>
  C8. \<^verbatim>\<open>WORD_RE\<close> also matches the name inside \<^verbatim>\<open>${name}\<close>, so a bracketed placeholder
  with a list value forks the replacements twice: the text \<^verbatim>\<open>${a} ${b}\<close> with lists of
  length 2 and 3 yields 36 expansions, each of the six combinations six times. The bare
  placeholders \<open>a b\<close> yield the six combinations once each.
\<close>

theorem expand_defines_bracketed_multi_valued:
  "\<forall>P. expand_defines P ''${a} ${b}''
          [''a'' \<mapsto> ValueList [''1'', ''2''], ''b'' \<mapsto> ValueList [''x'', ''y'', ''z'']] False
         = Inr (concat (map (replicate 6)
                  [''1 x'', ''1 y'', ''1 z'', ''2 x'', ''2 y'', ''2 z'']))
       \<and> expand_defines P ''a b''
          [''a'' \<mapsto> ValueList [''1'', ''2''], ''b'' \<mapsto> ValueList [''x'', ''y'', ''z'']] False
         = Inr [''1 x'', ''1 y'', ''1 z'', ''2 x'', ''2 y'', ''2 z'']"
  by (simp add: expand_defines_eval numeral_eq_Suc)

end
